theory Spec2Isabelle
  imports Main "HOL-Library.Word"
begin

section \<open>Bytes, buffers and JavaScript strings\<close>

type_synonym byte = "8 word"
type_synonym Buffer = "byte list"

text \<open>
  A JavaScript string is a sequence of UTF-16 code units; \<open>s.length\<close> counts code units.
\<close>

type_synonym js_string = "16 word list"

definition js_length :: "js_string \<Rightarrow> int" where
  "js_length s = int (length s)"

definition ascii :: "string \<Rightarrow> js_string" where
  "ascii s = map (\<lambda>c. of_nat (of_char c)) s"

text \<open>
  \<open>Buffer.from(s, 'utf8')\<close>: the UTF-8 encoding of the code points of \<open>s\<close>; a surrogate
  pair is one code point of four bytes, an unpaired surrogate is replaced by U+FFFD.
\<close>

definition utf8_of_code_point :: "nat \<Rightarrow> Buffer" where
  "utf8_of_code_point cp =
     (if cp < 0x80 then [of_nat cp]
      else if cp < 0x800 then
        [of_nat (0xC0 + cp div 64), of_nat (0x80 + cp mod 64)]
      else if cp < 0x10000 then
        [of_nat (0xE0 + cp div 4096), of_nat (0x80 + (cp div 64) mod 64),
         of_nat (0x80 + cp mod 64)]
      else
        [of_nat (0xF0 + cp div 262144), of_nat (0x80 + (cp div 4096) mod 64),
         of_nat (0x80 + (cp div 64) mod 64), of_nat (0x80 + cp mod 64)])"

definition is_lead_surrogate :: "nat \<Rightarrow> bool" where
  "is_lead_surrogate c = (0xD800 \<le> c \<and> c \<le> 0xDBFF)"

definition is_trail_surrogate :: "nat \<Rightarrow> bool" where
  "is_trail_surrogate c = (0xDC00 \<le> c \<and> c \<le> 0xDFFF)"

definition replacement_character :: Buffer where
  "replacement_character = [0xEF, 0xBF, 0xBD]"

fun utf8_units :: "nat list \<Rightarrow> Buffer" where
  "utf8_units [] = []"
| "utf8_units [c] =
     (if is_lead_surrogate c \<or> is_trail_surrogate c then replacement_character
      else utf8_of_code_point c)"
| "utf8_units (c # d # cs) =
     (if is_lead_surrogate c then
        (if is_trail_surrogate d
         then utf8_of_code_point (0x10000 + (c - 0xD800) * 1024 + (d - 0xDC00)) @ utf8_units cs
         else replacement_character @ utf8_units (d # cs))
      else if is_trail_surrogate c then replacement_character @ utf8_units (d # cs)
      else utf8_of_code_point c @ utf8_units (d # cs))"

definition Buffer_from_utf8 :: "js_string \<Rightarrow> Buffer" where
  "Buffer_from_utf8 s = utf8_units (map unat s)"

section \<open>Errors and fallible buffer writes\<close>

datatype apdu_error =
    ExpectedCoinType
  | RangeError
  | HrpTooLong

text \<open>Sequencing of computations that may throw: the first exception wins.\<close>

definition bindE :: "'e + 'a \<Rightarrow> ('a \<Rightarrow> 'e + 'b) \<Rightarrow> 'e + 'b" where
  "bindE m f = (case m of Inl e \<Rightarrow> Inl e | Inr x \<Rightarrow> f x)"

text \<open>
  \<open>buf.writeUInt8(v)\<close>, \<open>buf.writeUInt16BE(v)\<close> and \<open>buf.writeUInt32BE(v)\<close> on a fresh
  buffer of exactly that size: a value outside the range of the field throws a RangeError.
\<close>

definition writeUInt8 :: "int \<Rightarrow> apdu_error + Buffer" where
  "writeUInt8 v = (if v < 0 \<or> 0xFF < v then Inl RangeError else Inr [word_of_int v])"

definition writeUInt16BE :: "int \<Rightarrow> apdu_error + Buffer" where
  "writeUInt16BE v =
     (if v < 0 \<or> 0xFFFF < v then Inl RangeError
      else Inr [word_of_int (v div 256), word_of_int v])"

definition u32_be :: "int \<Rightarrow> Buffer" where
  "u32_be v =
     [word_of_int (v div 16777216), word_of_int (v div 65536), word_of_int (v div 256),
      word_of_int v]"

definition writeUInt32BE :: "int \<Rightarrow> apdu_error + Buffer" where
  "writeUInt32BE v = (if v < 0 \<or> 0xFFFFFFFF < v then Inl RangeError else Inr (u32_be v))"

section \<open>HD paths\<close>

text \<open>
  Modelled from the spec: the types \<open>BIP32PathComponentT\<close> and \<open>HDPathRadixT\<close> and the
  constant \<open>RADIX_COIN_TYPE\<close> are declared in the crypto package, which is not part of the
  sources at hand. A component is a 32-bit unsigned integer whose high bit denotes
  hardening: \<open>index\<close> is the stored integer, \<open>component_value\<close> (the source's \<open>value()\<close>)
  the index without the hardening bit. The coin type of a Radix path is 536.
\<close>

record BIP32PathComponent =
  index :: int
  isHardened :: bool

definition hardenedIncrement :: int where
  "hardenedIncrement = 0x80000000"

definition component_value :: "BIP32PathComponent \<Rightarrow> int" where
  "component_value c = (if isHardened c then index c - hardenedIncrement else index c)"

definition BIP32PathComponent_create :: "int \<Rightarrow> bool \<Rightarrow> BIP32PathComponent" where
  "BIP32PathComponent_create v h =
     \<lparr>index = (if h then v + hardenedIncrement else v), isHardened = h\<rparr>"

definition RADIX_COIN_TYPE :: int where
  "RADIX_COIN_TYPE = 536"

record HDPathRadix =
  coinType :: BIP32PathComponent
  pathComponents :: "BIP32PathComponent list"

text \<open>The path \<open>m/purpose/coin/account/change/index\<close> from five (value, hardened) pairs.\<close>

definition HDPathRadix_create ::
  "(int \<times> bool) \<Rightarrow> (int \<times> bool) \<Rightarrow> (int \<times> bool) \<Rightarrow> (int \<times> bool) \<Rightarrow> (int \<times> bool) \<Rightarrow> HDPathRadix" where
  "HDPathRadix_create purpose coin account change addressIndex =
     \<lparr>coinType = BIP32PathComponent_create (fst coin) (snd coin),
      pathComponents = map (\<lambda>(v, h). BIP32PathComponent_create v h)
        [purpose, coin, account, change, addressIndex]\<rparr>"

text \<open>The path \<open>m/44'/536'/0'/0/0\<close>.\<close>

definition default_radix_path :: HDPathRadix where
  "default_radix_path =
     HDPathRadix_create (44, True) (536, True) (0, True) (0, False) (0, False)"

text \<open>
  The \<open>forEach\<close> of \<open>hdPathComponentsToBuffer\<close>: component \<open>i\<close> is written at offset
  \<open>4 * i\<close> of a buffer of \<open>4 * n\<close> bytes; the first write that throws ends the loop.
\<close>

fun write_components :: "BIP32PathComponent list \<Rightarrow> apdu_error + Buffer" where
  "write_components [] = Inr []"
| "write_components (c # cs) =
     bindE (writeUInt32BE (index c)) (\<lambda>w.
     bindE (write_components cs) (\<lambda>rest. Inr (w @ rest)))"

definition hdPathComponentsToBuffer :: "HDPathRadix \<Rightarrow> apdu_error + Buffer" where
  "hdPathComponentsToBuffer hdPath =
     (if component_value (coinType hdPath) \<noteq> RADIX_COIN_TYPE \<or> \<not> isHardened (coinType hdPath)
      then Inl ExpectedCoinType
      else write_components (pathComponents hdPath))"

definition hdPathToBuffer :: "HDPathRadix \<Rightarrow> apdu_error + Buffer" where
  "hdPathToBuffer hdPath =
     bindE (hdPathComponentsToBuffer hdPath) (\<lambda>bipPathsData.
     bindE (writeUInt8 (int (length (pathComponents hdPath)))) (\<lambda>bipPathsLengthAsSingleByte.
     Inr (bipPathsLengthAsSingleByte @ bipPathsData)))"

section \<open>APDU frames\<close>

text \<open>
  Modelled from the spec: \<open>LedgerInstruction\<close>, \<open>radixCLA\<close> and
  \<open>LedgerResponseCodes.SW_OK\<close> are declared in the package's type file, which is not part
  of the sources at hand. The class byte is \<open>0xAA\<close>, the success status word \<open>0x9000\<close>;
  the instruction codes stay opaque.
\<close>

datatype LedgerInstruction =
    GET_VERSION
  | GET_APP_NAME
  | GET_PUBLIC_KEY
  | DO_SIGN_HASH
  | DO_KEY_EXCHANGE
  | DO_SIGN_TX

definition radixCLA :: nat where
  "radixCLA = 0xAA"

definition SW_OK :: nat where
  "SW_OK = 0x9000"

record PartialAPDU =
  in_ins :: LedgerInstruction
  in_p1 :: "nat option"
  in_p2 :: "nat option"
  in_data :: "Buffer option"
  in_requiredResponseStatusCodeFromDevice :: "nat list option"

record RadixAPDU =
  cla :: nat
  ins :: LedgerInstruction
  p1 :: nat
  p2 :: nat
  data :: "Buffer option"
  requiredResponseStatusCodeFromDevice :: "nat list"

text \<open>\<open>x ?? d\<close>: the default replaces an absent value.\<close>

definition nullish :: "'a option \<Rightarrow> 'a \<Rightarrow> 'a" where
  "nullish x d = (case x of None \<Rightarrow> d | Some v \<Rightarrow> v)"

definition makeAPDU :: "PartialAPDU \<Rightarrow> RadixAPDU" where
  "makeAPDU input =
     \<lparr>cla = radixCLA,
      ins = in_ins input,
      p1 = nullish (in_p1 input) 0,
      p2 = nullish (in_p2 input) 0,
      data = in_data input,
      requiredResponseStatusCodeFromDevice =
        nullish (in_requiredResponseStatusCodeFromDevice input) [SW_OK]\<rparr>"

definition partial_apdu :: "LedgerInstruction \<Rightarrow> PartialAPDU" where
  "partial_apdu i =
     \<lparr>in_ins = i, in_p1 = None, in_p2 = None, in_data = None,
      in_requiredResponseStatusCodeFromDevice = None\<rparr>"

definition getVersion :: RadixAPDU where
  "getVersion = makeAPDU (partial_apdu GET_VERSION)"

definition getAppName :: RadixAPDU where
  "getAppName = makeAPDU (partial_apdu GET_APP_NAME)"

definition parameterValueForDisplayAddressOnLedger :: "bool \<Rightarrow> nat" where
  "parameterValueForDisplayAddressOnLedger displayAddress = (if displayAddress then 0x01 else 0x00)"

definition parameterValueForDisplayECDHInputOnLedger :: "bool \<Rightarrow> nat" where
  "parameterValueForDisplayECDHInputOnLedger displayBIPAndPubKeyOtherParty =
     (if displayBIPAndPubKeyOtherParty then 0x01 else 0x00)"

definition getPublicKey :: "HDPathRadix \<Rightarrow> bool \<Rightarrow> apdu_error + RadixAPDU" where
  "getPublicKey path displayAddress =
     (let p1 = parameterValueForDisplayAddressOnLedger displayAddress in
      bindE (hdPathToBuffer path) (\<lambda>data.
      Inr (makeAPDU ((partial_apdu GET_PUBLIC_KEY)\<lparr>in_p1 := Some p1, in_data := Some data\<rparr>))))"

text \<open>
  \<open>publicKeyUncompressedData\<close> stands for
  \<open>publicKeyOfOtherParty.asData({ compressed: false })\<close>; the key type belongs to the
  elliptic-curve library.
\<close>

definition doKeyExchange :: "HDPathRadix \<Rightarrow> Buffer \<Rightarrow> bool \<Rightarrow> apdu_error + RadixAPDU" where
  "doKeyExchange path publicKeyUncompressedData displayBIPAndPubKeyOtherParty =
     (let p1 = parameterValueForDisplayECDHInputOnLedger displayBIPAndPubKeyOtherParty in
      bindE (writeUInt8 (int (length publicKeyUncompressedData))) (\<lambda>publicKeyLengthBuf.
      let publicKeyData = publicKeyLengthBuf @ publicKeyUncompressedData in
      bindE (hdPathToBuffer path) (\<lambda>pathData.
      let data = pathData @ publicKeyData in
      Inr (makeAPDU ((partial_apdu DO_KEY_EXCHANGE)\<lparr>in_p1 := Some p1, in_data := Some data\<rparr>)))))"

definition doSignHash :: "HDPathRadix \<Rightarrow> bool \<Rightarrow> Buffer \<Rightarrow> apdu_error + RadixAPDU" where
  "doSignHash path displayAddress hashToSign =
     (let p1 = parameterValueForDisplayAddressOnLedger displayAddress in
      bindE (hdPathToBuffer path) (\<lambda>pathData.
      bindE (writeUInt8 (int (length hashToSign))) (\<lambda>hashLenBuf.
      let hashData = hashLenBuf @ hashToSign;
          data = pathData @ hashData in
      Inr (makeAPDU ((partial_apdu DO_SIGN_HASH)\<lparr>in_p1 := Some p1, in_data := Some data\<rparr>)))))"

definition SINGLE_RADIX_ENGINE_INSTRUCTION_APDU :: nat where
  "SINGLE_RADIX_ENGINE_INSTRUCTION_APDU = 73"

definition FIRST_METADATA_APDU :: nat where
  "FIRST_METADATA_APDU = 77"

record APDUDoSignTxInitialPackage =
  path :: HDPathRadix
  txByteCount :: int
  nonNativeTokenRriHRP :: "js_string option"
  numberOfInstructions :: int

definition signTxInitialSetupPackage :: "APDUDoSignTxInitialPackage \<Rightarrow> apdu_error + RadixAPDU" where
  "signTxInitialSetupPackage input =
     (let p1 = FIRST_METADATA_APDU in
      bindE (hdPathToBuffer (path input)) (\<lambda>pathData.
      bindE (writeUInt32BE (txByteCount input)) (\<lambda>sizeOfTXAsData.
      bindE (writeUInt16BE (numberOfInstructions input)) (\<lambda>instructionCountAsData.
      let hrpLen = (case nonNativeTokenRriHRP input of None \<Rightarrow> 0 | Some hrp \<Rightarrow> js_length hrp) in
      if hrpLen > 255 then Inl HrpTooLong
      else
        bindE (writeUInt8 hrpLen) (\<lambda>nonNativeTokenHrpLengthAsData.
        let nonNativeTokenHrpData =
              (case nonNativeTokenRriHRP input of None \<Rightarrow> [] | Some hrp \<Rightarrow> Buffer_from_utf8 hrp);
            hrpData = nonNativeTokenHrpLengthAsData @ nonNativeTokenHrpData;
            data = pathData @ sizeOfTXAsData @ instructionCountAsData @ hrpData in
        Inr (makeAPDU ((partial_apdu DO_SIGN_TX)\<lparr>in_p1 := Some p1, in_data := Some data\<rparr>)))))))"

record APDUDoSignTxSingleInstructionPackage =
  instructionBytes :: Buffer
  isLastInstruction :: bool

definition signTxStream :: "APDUDoSignTxSingleInstructionPackage \<Rightarrow> RadixAPDU" where
  "signTxStream input =
     (let p1 = SINGLE_RADIX_ENGINE_INSTRUCTION_APDU;
          p2 = (if isLastInstruction input then 0x01 else 0x00) in
      makeAPDU ((partial_apdu DO_SIGN_TX)
        \<lparr>in_p1 := Some p1, in_p2 := Some p2, in_data := Some (instructionBytes input)\<rparr>))"

text \<open>
  Modelled from the spec: the caller that streams a transaction to the device (the
  hardware-wallet package) is not part of the sources at hand. Section 4.4 of the
  specification: the metadata frame first, then for each instruction in order one
  instruction frame, marked as last exactly on the final instruction.
\<close>

fun instruction_packages :: "Buffer list \<Rightarrow> APDUDoSignTxSingleInstructionPackage list" where
  "instruction_packages [] = []"
| "instruction_packages (i # is) =
     \<lparr>instructionBytes = i, isLastInstruction = (is = [])\<rparr> # instruction_packages is"

definition signTxFrames :: "APDUDoSignTxInitialPackage \<Rightarrow> Buffer list \<Rightarrow> apdu_error + RadixAPDU list" where
  "signTxFrames input instructions =
     bindE (signTxInitialSetupPackage input) (\<lambda>metadata.
     Inr (metadata # map signTxStream (instruction_packages instructions)))"

text \<open>
  The exported object \<open>RadixAPDU\<close>: one entry per builder. \<open>payload_length\<close> is the number
  of data bytes the entry assembles.
\<close>

datatype RadixAPDU_call =
    Call_getAppName
  | Call_getVersion
  | Call_getPublicKey HDPathRadix bool
  | Call_doKeyExchange HDPathRadix Buffer bool
  | Call_doSignHash HDPathRadix bool Buffer
  | Call_signTX_initialSetup APDUDoSignTxInitialPackage
  | Call_signTX_stream APDUDoSignTxSingleInstructionPackage

fun RadixAPDU_build :: "RadixAPDU_call \<Rightarrow> apdu_error + RadixAPDU" where
  "RadixAPDU_build Call_getAppName = Inr getAppName"
| "RadixAPDU_build Call_getVersion = Inr getVersion"
| "RadixAPDU_build (Call_getPublicKey p d) = getPublicKey p d"
| "RadixAPDU_build (Call_doKeyExchange p pk d) = doKeyExchange p pk d"
| "RadixAPDU_build (Call_doSignHash p d h) = doSignHash p d h"
| "RadixAPDU_build (Call_signTX_initialSetup i) = signTxInitialSetupPackage i"
| "RadixAPDU_build (Call_signTX_stream i) = Inr (signTxStream i)"

definition path_length :: "HDPathRadix \<Rightarrow> nat" where
  "path_length p = 1 + 4 * length (pathComponents p)"

fun payload_length :: "RadixAPDU_call \<Rightarrow> nat" where
  "payload_length Call_getAppName = 0"
| "payload_length Call_getVersion = 0"
| "payload_length (Call_getPublicKey p d) = path_length p"
| "payload_length (Call_doKeyExchange p pk d) = path_length p + 1 + length pk"
| "payload_length (Call_doSignHash p d h) = path_length p + 1 + length h"
| "payload_length (Call_signTX_initialSetup i) =
     path_length (path i) + 4 + 2 + 1 +
     (case nonNativeTokenRriHRP i of None \<Rightarrow> 0 | Some hrp \<Rightarrow> length (Buffer_from_utf8 hrp))"
| "payload_length (Call_signTX_stream i) = length (instructionBytes i)"

definition data_length :: "RadixAPDU \<Rightarrow> nat" where
  "data_length f = (case data f of None \<Rightarrow> 0 | Some d \<Rightarrow> length d)"

definition frame_header_ok :: "RadixAPDU \<Rightarrow> bool" where
  "frame_header_ok f \<longleftrightarrow>
     cla f = 0xAA \<and> p1 f \<le> 255 \<and> p2 f \<le> 255 \<and>
     requiredResponseStatusCodeFromDevice f = [0x9000]"

section \<open>Token amounts and the Tokens substate\<close>

text \<open>
  The reader of the parser is a cursor over a byte sequence (the type \<open>BufferReaderT\<close>
  is declared in the utilities package): its state is the bytes not yet read, and
  \<open>readNextBuffer n\<close> returns the next \<open>n\<close> bytes and advances past them, or fails and
  leaves the cursor where it was when fewer than \<open>n\<close> bytes remain.
\<close>

type_synonym BufferReader = Buffer

datatype parse_error =
    OutOfBuffer
  | InvalidAddress

definition readNextBuffer :: "nat \<Rightarrow> BufferReader \<Rightarrow> (parse_error + Buffer) \<times> BufferReader" where
  "readNextBuffer n r =
     (if n \<le> length r then (Inr (take n r), drop n r) else (Inl OutOfBuffer, r))"

text \<open>
  \<open>UInt256\<close> is the class of the unsigned 256-bit integer library: a number below
  \<open>2^256\<close> held in 32 bytes. \<open>new UInt256(b.toString('hex'), 16)\<close> is the number whose
  hexadecimal digits are those of the bytes of \<open>b\<close>, most significant byte first;
  \<open>toByteArray()\<close> is its 32 bytes, least significant byte first.
\<close>

type_synonym UInt256 = nat

definition uint256ByteCount :: nat where
  "uint256ByteCount = 32"

definition UInt256_of_hex_of :: "Buffer \<Rightarrow> UInt256" where
  "UInt256_of_hex_of b = foldl (\<lambda>acc x. acc * 256 + unat x) 0 b"

fun little_endian_bytes :: "nat \<Rightarrow> nat \<Rightarrow> Buffer" where
  "little_endian_bytes 0 n = []"
| "little_endian_bytes (Suc k) n = of_nat n # little_endian_bytes k (n div 256)"

definition toByteArray :: "UInt256 \<Rightarrow> Buffer" where
  "toByteArray amount = little_endian_bytes 32 amount"

definition map_result :: "('a \<Rightarrow> 'b) \<Rightarrow> 'e + 'a \<Rightarrow> 'e + 'b" where
  "map_result f r = (case r of Inl e \<Rightarrow> Inl e | Inr x \<Rightarrow> Inr (f x))"

definition uint256FromReadBuffer :: "BufferReader \<Rightarrow> (parse_error + UInt256) \<times> BufferReader" where
  "uint256FromReadBuffer bufferReader =
     (let (res, r) = readNextBuffer uint256ByteCount bufferReader
      in (map_result UInt256_of_hex_of res, r))"

definition amountToBuffer :: "UInt256 \<Rightarrow> Buffer" where
  "amountToBuffer amount = rev (toByteArray amount)"

record 'a Tokens =
  rri :: 'a
  owner :: 'a
  amount :: UInt256
  substateType :: byte
  toBuffer :: Buffer

text \<open>
  \<open>Tokens.fromBufferReader\<close>. The address type is that of the module \<open>reAddress\<close>, which
  is not part of the sources at hand: its parser \<open>REAddress_fromBufferReader\<close> and its
  serialiser \<open>REAddress_toBuffer\<close> are parameters, and so is the byte of
  \<open>SubStateType.TOKENS\<close>. The three reads of the array passed to \<open>combine\<close> all run, in
  order, on the one reader; \<open>combine\<close> then yields the first error, or the three values.
\<close>

definition combine3 :: "'e + 'a \<Rightarrow> 'e + 'b \<Rightarrow> 'e + 'c \<Rightarrow> 'e + ('a \<times> 'b \<times> 'c)" where
  "combine3 a b c =
     (case a of
        Inl e \<Rightarrow> Inl e
      | Inr x \<Rightarrow>
          (case b of
             Inl e \<Rightarrow> Inl e
           | Inr y \<Rightarrow> (case c of Inl e \<Rightarrow> Inl e | Inr z \<Rightarrow> Inr (x, y, z))))"

definition fromBufferReader ::
  "(BufferReader \<Rightarrow> (parse_error + 'a) \<times> BufferReader) \<Rightarrow> ('a \<Rightarrow> Buffer) \<Rightarrow> byte \<Rightarrow>
   BufferReader \<Rightarrow> (parse_error + 'a Tokens) \<times> BufferReader" where
  "fromBufferReader REAddress_fromBufferReader REAddress_toBuffer TOKENS bufferReader =
     (let (res0, r1) = REAddress_fromBufferReader bufferReader;
          (res1, r2) = REAddress_fromBufferReader r1;
          (res2, r3) = uint256FromReadBuffer r2
      in (map_result
            (\<lambda>(rri0, owner0, amount0).
               \<lparr>rri = rri0, owner = owner0, amount = amount0, substateType = TOKENS,
                toBuffer = [TOKENS] @ REAddress_toBuffer rri0 @ REAddress_toBuffer owner0
                           @ amountToBuffer amount0\<rparr>)
            (combine3 res0 res1 res2),
          r3))"

text \<open>An address parser for examples: one byte, the address itself.\<close>

definition one_byte_address :: "BufferReader \<Rightarrow> (parse_error + byte) \<times> BufferReader" where
  "one_byte_address r = (case r of [] \<Rightarrow> (Inl OutOfBuffer, r) | x # xs \<Rightarrow> (Inr x, xs))"

section \<open>The transaction pipeline\<close>

subsection \<open>Values passed between the stages\<close>

text \<open>
  Modelled from the spec: the data transfer objects, the actions, the tracking event
  types and the error constructors of the application package are declared in modules
  that are not part of the sources at hand. Section 3 of the specification gives their
  shape: an intent is a sequence of actions, a built transaction an opaque blob with a
  fee, a signed transaction the blob with a signature and the signer's public key, a
  finalized and a pending transaction carry the transaction identifier, a status is an
  identifier with one of three values. Section 7 names the domain-tagged errors, each
  wrapping the message of the underlying error.
\<close>

type_synonym blob = string
type_synonym TransactionIdentifier = string
type_synonym Signature = string
type_synonym PublicKey = string
type_synonym message = string

datatype ActionType =
    TOKEN_TRANSFER
  | STAKE_TOKENS
  | UNSTAKE_TOKENS

record IntendedAction =
  type :: ActionType
  rri_name :: js_string

record TransactionIntent =
  actions :: "IntendedAction list"

record BuiltTransaction =
  transaction :: blob
  fee :: nat

record SignedTransaction =
  transaction :: blob
  signature :: Signature
  publicKeyOfSigner :: PublicKey

record FinalizedTransaction =
  txID :: TransactionIdentifier

record PendingTransaction =
  txID :: TransactionIdentifier

datatype TransactionStatus =
    STATUS_PENDING
  | STATUS_CONFIRMED
  | STATUS_FAILED

record StatusOfTransaction =
  txID :: TransactionIdentifier
  status :: TransactionStatus

datatype TransactionTrackingEventType =
    INITIATED
  | BUILT_FROM_INTENT
  | ASKED_FOR_CONFIRMATION
  | CONFIRMED
  | SIGNED
  | FINALIZED
  | SUBMITTED
  | UPDATE_OF_STATUS_OF_PENDING_TX
  | COMPLETED

datatype tx_error =
    BuildTxFromIntentErr message
  | FinalizeTxErr message
  | SubmitSignedTxErr message
  | TxStatusErr message
  | MultipleNonNativeRRIs
  | SigningErr message
  | StatusFailedErr TransactionIdentifier

datatype transaction_state =
    IntentState TransactionIntent
  | BuiltState BuiltTransaction
  | SignedState SignedTransaction
  | FinalizedState FinalizedTransaction
  | PendingState PendingTransaction
  | StatusState StatusOfTransaction

text \<open>
  A tracking event is \<open>{ transactionState, eventUpdateType }\<close> or, for an error,
  \<open>{ error, eventUpdateType }\<close>.
\<close>

datatype TransactionStateUpdate =
    StateUpdate transaction_state TransactionTrackingEventType
  | StateError tx_error TransactionTrackingEventType

subsection \<open>The signing request\<close>

definition xrd :: js_string where
  "xrd = ascii ''xrd''"

text \<open>\<open>[...new Set(xs)]\<close>: the distinct elements of \<open>xs\<close>, in the order of first occurrence.\<close>

fun unique :: "'a list \<Rightarrow> 'a list" where
  "unique [] = []"
| "unique (x # xs) = x # filter (\<lambda>y. y \<noteq> x) (unique xs)"

definition nonXRDHRPsOfRRIsInTx :: "TransactionIntent \<Rightarrow> js_string list" where
  "nonXRDHRPsOfRRIsInTx transactionIntent =
     map rri_name
       (filter (\<lambda>t. rri_name t \<noteq> xrd)
          (filter (\<lambda>a. type a = TOKEN_TRANSFER) (actions transactionIntent)))"

text \<open>
  The body of the \<open>mergeMap\<close> of \<open>signUnsignedTx\<close>: either the error thrown for several
  non-native resource names, or the arguments of the call \<open>account.sign\<close>.
\<close>

definition signUnsignedTx ::
  "TransactionIntent \<Rightarrow> BuiltTransaction \<Rightarrow> tx_error + (blob \<times> js_string option)" where
  "signUnsignedTx transactionIntent unsignedTx =
     (let uniquenonXRDHRPsOfRRIsInTx = unique (nonXRDHRPsOfRRIsInTx transactionIntent) in
      if length uniquenonXRDHRPsOfRRIsInTx > 1 then Inl MultipleNonNativeRRIs
      else
        (let nonXRDHrp =
           (if length uniquenonXRDHRPsOfRRIsInTx = 1
            then Some (uniquenonXRDHRPsOfRRIsInTx ! 0) else None)
         in Inr (BuiltTransaction.transaction unsignedTx, nonXRDHrp)))"

subsection \<open>The state of one run of the pipeline\<close>

text \<open>
  One call of \<open>__makeTransactionFromIntent\<close> builds a network of observables and
  subscribes to it; afterwards the network only reacts to what its collaborators
  deliver. The model is the state of that network and one reaction per delivery.

  The parameters of a run: the intent that the intent source emits (a source of one
  value, to which the signing step subscribes again), whether the confirmation is
  skipped, and the public key of the active account.

  Every delivery arrives after the call has returned, that is, after all subscriptions
  have been made. A request answers at most once (the calls to the node end with
  \<open>take(1)\<close>). Inside \<open>signUnsignedTx\<close> the intent source and the active account,
  which have emitted before, answer at once.
\<close>

datatype TransactionConfirmationBeforeFinalization =
    Skip
  | Manual

record pipeline_options =
  intent :: TransactionIntent
  userConfirmation :: TransactionConfirmationBeforeFinalization
  publicKey :: PublicKey

datatype completion_state =
    Open
  | Completed TransactionIdentifier
  | Errored tx_error

datatype collaborator_call =
    BuildTransactionCall TransactionIntent
  | SignCall blob "js_string option"
  | FinalizeTransactionCall SignedTransaction
  | SubmitSignedTransactionCall FinalizedTransaction
  | TransactionStatusCall TransactionIdentifier

text \<open>
  What the collaborators deliver: the intent source emits (with an active address at
  hand), a request to the node or to the account answers with a value or fails with a
  message, the user invokes \<open>confirm()\<close>, the polling trigger ticks.
\<close>

datatype stimulus =
    IntentEmits
  | BuildReturns "message + BuiltTransaction"
  | UserConfirms
  | SignReturns "message + Signature"
  | FinalizeReturns "message + FinalizedTransaction"
  | SubmitReturns "message + PendingTransaction"
  | PollTick
  | StatusReturns "message + StatusOfTransaction"

text \<open>
  The fields: \<open>events\<close> is the replay buffer of \<open>trackingSubject\<close>, \<open>completion\<close> the state
  of \<open>completionSubject\<close> and \<open>calls\<close> the requests made to the collaborators so far. The
  others are the state of the operators: the value slots of the two \<open>combineLatest\<close>, the inner
  subscriptions of each \<open>mergeMap\<close> (requests in flight), the last key of
  \<open>distinctUntilChanged\<close>, and which subscriptions are still live. \<open>sourceLive\<close> is the
  subscription that \<open>shareReplay(1)\<close> holds on the chain from the intent to the signature
  (it outlives its subscribers), \<open>finalizeLive\<close> the subscription of \<open>finalizedTx$\<close> to it,
  \<open>statusLive\<close> the shared subscription of \<open>transactionStatus$\<close>.
\<close>

record pipeline_state =
  events :: "TransactionStateUpdate list"
  completion :: completion_state
  calls :: "collaborator_call list"
  intentEmitted :: bool
  buildInFlight :: bool
  builtSlot :: "BuiltTransaction option"
  confirmHandle :: bool
  confirmSlot :: bool
  sourceLive :: bool
  signInFlight :: nat
  finalizeLive :: bool
  finalizeInFlight :: nat
  submitInFlight :: nat
  statusLive :: bool
  tickSlot :: bool
  pendingSlot :: "PendingTransaction option"
  statusInFlight :: nat
  lastStatus :: "StatusOfTransaction option"

definition initial_state :: pipeline_state where
  "initial_state =
     \<lparr>events = [], completion = Open, calls = [],
      intentEmitted = False, buildInFlight = False, builtSlot = None,
      confirmHandle = False, confirmSlot = False, sourceLive = True, signInFlight = 0,
      finalizeLive = True, finalizeInFlight = 0, submitInFlight = 0,
      statusLive = True, tickSlot = False, pendingSlot = None, statusInFlight = 0,
      lastStatus = None\<rparr>"

definition track :: "TransactionStateUpdate \<Rightarrow> pipeline_state \<Rightarrow> pipeline_state" where
  "track event s = s\<lparr>events := events s @ [event]\<rparr>"

definition request :: "collaborator_call \<Rightarrow> pipeline_state \<Rightarrow> pipeline_state" where
  "request c s = s\<lparr>calls := calls s @ [c]\<rparr>"

text \<open>\<open>completionSubject.error(e)\<close>: without effect on a subject that has terminated.\<close>

definition completion_error :: "tx_error \<Rightarrow> pipeline_state \<Rightarrow> pipeline_state" where
  "completion_error e s = s\<lparr>completion := (if completion s = Open then Errored e else completion s)\<rparr>"

text \<open>\<open>completionSubject.next(txID); completionSubject.complete()\<close>.\<close>

definition completion_next_complete :: "TransactionIdentifier \<Rightarrow> pipeline_state \<Rightarrow> pipeline_state" where
  "completion_next_complete t s =
     s\<lparr>completion := (if completion s = Open then Completed t else completion s)\<rparr>"

definition trackError :: "tx_error \<Rightarrow> TransactionTrackingEventType \<Rightarrow> pipeline_state \<Rightarrow> pipeline_state" where
  "trackError e inStep s = completion_error e (track (StateError e inStep) s)"

text \<open>
  \<open>txSubs.unsubscribe()\<close>: the subscription of the submission chain (with it that of
  \<open>finalizedTx$\<close> and the requests it has in flight) and the three subscriptions to
  \<open>transactionStatus$\<close> (with them the shared polling) end.
\<close>

definition txSubs_unsubscribe :: "pipeline_state \<Rightarrow> pipeline_state" where
  "txSubs_unsubscribe s =
     s\<lparr>finalizeLive := False, finalizeInFlight := 0, submitInFlight := 0,
       statusLive := False, statusInFlight := 0\<rparr>"

text \<open>
  \<open>signedTransaction$\<close> fails: the chain behind \<open>shareReplay\<close> ends with its requests,
  and the error reaches the \<open>catchError\<close> of \<open>finalizedTx$\<close> when that is still
  subscribed; \<open>finalizedTx$\<close> then completes.
\<close>

definition signing_failed :: "tx_error \<Rightarrow> pipeline_state \<Rightarrow> pipeline_state" where
  "signing_failed e s =
     (let s1 = s\<lparr>sourceLive := False, signInFlight := 0\<rparr> in
      if finalizeLive s1
      then trackError e FINALIZED (s1\<lparr>finalizeLive := False, finalizeInFlight := 0\<rparr>)
      else s1)"

text \<open>
  The \<open>combineLatest\<close> of the built transaction and the confirmation emits: the \<open>tap\<close>
  tracks \<open>CONFIRMED\<close>, the \<open>mergeMap\<close> starts \<open>signUnsignedTx\<close>.
\<close>

definition confirmed :: "pipeline_options \<Rightarrow> BuiltTransaction \<Rightarrow> pipeline_state \<Rightarrow> pipeline_state" where
  "confirmed opts unsignedTx s =
     (let s1 = track (StateUpdate (BuiltState unsignedTx) CONFIRMED) s in
      case signUnsignedTx (intent opts) unsignedTx of
        Inl e \<Rightarrow> signing_failed e s1
      | Inr (tx, nonXRDHrp) \<Rightarrow>
          (request (SignCall tx nonXRDHrp) s1)\<lparr>signInFlight := signInFlight s1 + 1\<rparr>)"

definition request_status :: "PendingTransaction \<Rightarrow> pipeline_state \<Rightarrow> pipeline_state" where
  "request_status pendingTx s =
     (request (TransactionStatusCall (PendingTransaction.txID pendingTx)) s)
       \<lparr>statusInFlight := statusInFlight s + 1\<rparr>"

subsection \<open>The reactions\<close>

text \<open>
  \<open>builtTransaction$\<close>: the \<open>switchMap\<close> tracks \<open>INITIATED\<close> and asks the node to build.
\<close>

definition on_intent :: "pipeline_options \<Rightarrow> pipeline_state \<Rightarrow> pipeline_state" where
  "on_intent opts s =
     (if sourceLive s \<and> \<not> intentEmitted s
      then (request (BuildTransactionCall (intent opts))
              (track (StateUpdate (IntentState (intent opts)) INITIATED) s))
             \<lparr>intentEmitted := True, buildInFlight := True\<rparr>
      else s)"

text \<open>
  The answer of \<open>buildTransaction\<close>. A failure is caught, tracked in the step
  \<open>BUILT_FROM_INTENT\<close> and replaced by \<open>EMPTY\<close>: \<open>builtTransaction$\<close> completes without a
  value, and with it \<open>combineLatest\<close> and everything downstream. A built transaction is
  tracked, handed to \<open>askUserToConfirmSubject\<close> (which confirms at once when the
  confirmation is skipped, and otherwise passes the \<open>confirm\<close> callback to the user),
  tracked as \<open>ASKED_FOR_CONFIRMATION\<close>, and stored in its slot of \<open>combineLatest\<close>.
\<close>

definition on_build :: "pipeline_options \<Rightarrow> message + BuiltTransaction \<Rightarrow> pipeline_state \<Rightarrow> pipeline_state" where
  "on_build opts r s =
     (if buildInFlight s then
        (let s0 = s\<lparr>buildInFlight := False\<rparr> in
         case r of
           Inl m \<Rightarrow>
             (trackError (BuildTxFromIntentErr m) BUILT_FROM_INTENT s0)
               \<lparr>sourceLive := False, finalizeLive := False\<rparr>
         | Inr builtTx \<Rightarrow>
             (let s1 = track (StateUpdate (BuiltState builtTx) BUILT_FROM_INTENT) s0;
                  s2 = (if userConfirmation opts = Skip
                        then s1\<lparr>confirmSlot := True\<rparr>
                        else s1\<lparr>confirmHandle := True\<rparr>);
                  s3 = track (StateUpdate (BuiltState builtTx) ASKED_FOR_CONFIRMATION) s2;
                  s4 = s3\<lparr>builtSlot := Some builtTx\<rparr>
              in if confirmSlot s4 then confirmed opts builtTx s4 else s4))
      else s)"

text \<open>
  \<open>confirm()\<close>, once the callback has been handed out:
  \<open>userDidConfirmTransactionSubject.next(0)\<close>.
\<close>

definition on_confirm :: "pipeline_options \<Rightarrow> pipeline_state \<Rightarrow> pipeline_state" where
  "on_confirm opts s =
     (if confirmHandle s then
        (let s1 = s\<lparr>confirmSlot := True\<rparr> in
         if sourceLive s1
         then (case builtSlot s1 of None \<Rightarrow> s1 | Some builtTx \<Rightarrow> confirmed opts builtTx s1)
         else s1)
      else s)"

text \<open>
  The answer of \<open>account.sign\<close>. A signature makes the signed transaction, which
  \<open>shareReplay\<close> passes to \<open>finalizedTx$\<close> when that is subscribed: \<open>SIGNED\<close> is tracked and
  the node is asked to finalize.
\<close>

definition on_sign :: "pipeline_options \<Rightarrow> message + Signature \<Rightarrow> pipeline_state \<Rightarrow> pipeline_state" where
  "on_sign opts r s =
     (if signInFlight s > 0 then
        (let s0 = s\<lparr>signInFlight := signInFlight s - 1\<rparr> in
         case r of
           Inl m \<Rightarrow> signing_failed (SigningErr m) s0
         | Inr sig \<Rightarrow>
             (case builtSlot s0 of
                None \<Rightarrow> s0
              | Some unsignedTx \<Rightarrow>
                  (let signedTx =
                        \<lparr>SignedTransaction.transaction = BuiltTransaction.transaction unsignedTx,
                         signature = sig, publicKeyOfSigner = publicKey opts\<rparr>
                   in if finalizeLive s0
                      then (request (FinalizeTransactionCall signedTx)
                              (track (StateUpdate (SignedState signedTx) SIGNED) s0))
                             \<lparr>finalizeInFlight := finalizeInFlight s0 + 1\<rparr>
                      else s0)))
      else s)"

text \<open>
  The answer of \<open>finalizeTransaction\<close>. A failure ends \<open>finalizedTx$\<close> (its other
  requests with it) and is tracked in the step \<open>FINALIZED\<close>.
\<close>

definition on_finalize :: "message + FinalizedTransaction \<Rightarrow> pipeline_state \<Rightarrow> pipeline_state" where
  "on_finalize r s =
     (if finalizeInFlight s > 0 then
        (let s0 = s\<lparr>finalizeInFlight := finalizeInFlight s - 1\<rparr> in
         case r of
           Inl m \<Rightarrow>
             trackError (FinalizeTxErr m) FINALIZED
               (s0\<lparr>finalizeLive := False, finalizeInFlight := 0\<rparr>)
         | Inr finalizedTx \<Rightarrow>
             (request (SubmitSignedTransactionCall finalizedTx)
                (track (StateUpdate (FinalizedState finalizedTx) FINALIZED) s0))
               \<lparr>submitInFlight := submitInFlight s0 + 1\<rparr>)
      else s)"

text \<open>
  The answer of \<open>submitSignedTransaction\<close>. A failure ends the whole submission chain
  and is tracked in the step \<open>SUBMITTED\<close>. A pending transaction is tracked and passed
  to \<open>pendingTXSubject\<close>, the second input of the \<open>combineLatest\<close> of the polling.
\<close>

definition on_submit :: "message + PendingTransaction \<Rightarrow> pipeline_state \<Rightarrow> pipeline_state" where
  "on_submit r s =
     (if submitInFlight s > 0 then
        (case r of
           Inl m \<Rightarrow>
             trackError (SubmitSignedTxErr m) SUBMITTED
               (s\<lparr>submitInFlight := 0, finalizeLive := False, finalizeInFlight := 0\<rparr>)
         | Inr pendingTx \<Rightarrow>
             (let s1 = track (StateUpdate (PendingState pendingTx) SUBMITTED)
                         (s\<lparr>submitInFlight := submitInFlight s - 1\<rparr>)
              in if statusLive s1
                 then (let s2 = s1\<lparr>pendingSlot := Some pendingTx\<rparr>
                       in if tickSlot s2 then request_status pendingTx s2 else s2)
                 else s1))
      else s)"

definition on_tick :: "pipeline_state \<Rightarrow> pipeline_state" where
  "on_tick s =
     (if statusLive s then
        (let s1 = s\<lparr>tickSlot := True\<rparr> in
         case pendingSlot s1 of None \<Rightarrow> s1 | Some pendingTx \<Rightarrow> request_status pendingTx s1)
      else s)"

text \<open>
  The answer of \<open>transactionStatus\<close>. A failure ends \<open>transactionStatus$\<close>; no
  subscriber tracks it or touches the completion subject. A status passes
  \<open>distinctUntilChanged\<close> when its \<open>status\<close> differs from that of the last one passed.
  The three subscribers then react in the order of their subscription: the first tracks
  the update; on \<open>CONFIRMED\<close> the second tracks \<open>COMPLETED\<close>, completes the completion
  subject and unsubscribes everything; on \<open>FAILED\<close> the third tracks an error in the step
  of the status update and unsubscribes everything.
\<close>

definition on_status :: "message + StatusOfTransaction \<Rightarrow> pipeline_state \<Rightarrow> pipeline_state" where
  "on_status r s =
     (if statusInFlight s > 0 then
        (let s0 = s\<lparr>statusInFlight := statusInFlight s - 1\<rparr> in
         case r of
           Inl m \<Rightarrow> s0\<lparr>statusLive := False, statusInFlight := 0\<rparr>
         | Inr statusOfTransaction \<Rightarrow>
             (if (case lastStatus s0 of
                    None \<Rightarrow> False
                  | Some prev \<Rightarrow> status prev = status statusOfTransaction)
              then s0
              else
                (let s2 = track (StateUpdate (StatusState statusOfTransaction)
                                   UPDATE_OF_STATUS_OF_PENDING_TX)
                            (s0\<lparr>lastStatus := Some statusOfTransaction\<rparr>)
                 in if status statusOfTransaction = STATUS_CONFIRMED then
                      txSubs_unsubscribe
                        (completion_next_complete (StatusOfTransaction.txID statusOfTransaction)
                           (track (StateUpdate (StatusState statusOfTransaction) COMPLETED) s2))
                    else if status statusOfTransaction = STATUS_FAILED then
                      txSubs_unsubscribe
                        (trackError (StatusFailedErr (StatusOfTransaction.txID statusOfTransaction))
                           UPDATE_OF_STATUS_OF_PENDING_TX s2)
                    else s2)))
      else s)"

fun step :: "pipeline_options \<Rightarrow> pipeline_state \<Rightarrow> stimulus \<Rightarrow> pipeline_state" where
  "step opts s IntentEmits = on_intent opts s"
| "step opts s (BuildReturns r) = on_build opts r s"
| "step opts s UserConfirms = on_confirm opts s"
| "step opts s (SignReturns r) = on_sign opts r s"
| "step opts s (FinalizeReturns r) = on_finalize r s"
| "step opts s (SubmitReturns r) = on_submit r s"
| "step opts s PollTick = on_tick s"
| "step opts s (StatusReturns r) = on_status r s"

definition run_from :: "pipeline_options \<Rightarrow> pipeline_state \<Rightarrow> stimulus list \<Rightarrow> pipeline_state" where
  "run_from opts s stimuli = foldl (step opts) s stimuli"

definition run :: "pipeline_options \<Rightarrow> stimulus list \<Rightarrow> pipeline_state" where
  "run opts stimuli = run_from opts initial_state stimuli"

subsection \<open>The order of the phases, as the specification words it\<close>

text \<open>
  The sequence \<open>[INITIATED?, BUILT_FROM_INTENT, ASKED_FOR_CONFIRMATION, CONFIRMED, SIGNED,
  FINALIZED, SUBMITTED, UPDATE_OF_STATUS_OF_PENDING_TX*, COMPLETED]\<close>: which phase may
  come directly after which. A position is the start, the last phase seen, the state
  after the one error event that may end any prefix, or out of order.
\<close>

datatype position =
    Before
  | After TransactionTrackingEventType
  | Terminated
  | OutOfOrder

fun follows :: "position \<Rightarrow> TransactionTrackingEventType \<Rightarrow> bool" where
  "follows Before ph = (ph = INITIATED \<or> ph = BUILT_FROM_INTENT)"
| "follows (After INITIATED) ph = (ph = BUILT_FROM_INTENT)"
| "follows (After BUILT_FROM_INTENT) ph = (ph = ASKED_FOR_CONFIRMATION)"
| "follows (After ASKED_FOR_CONFIRMATION) ph = (ph = CONFIRMED)"
| "follows (After CONFIRMED) ph = (ph = SIGNED)"
| "follows (After SIGNED) ph = (ph = FINALIZED)"
| "follows (After FINALIZED) ph = (ph = SUBMITTED)"
| "follows (After SUBMITTED) ph = (ph = UPDATE_OF_STATUS_OF_PENDING_TX \<or> ph = COMPLETED)"
| "follows (After UPDATE_OF_STATUS_OF_PENDING_TX) ph =
     (ph = UPDATE_OF_STATUS_OF_PENDING_TX \<or> ph = COMPLETED)"
| "follows (After COMPLETED) ph = False"
| "follows Terminated ph = False"
| "follows OutOfOrder ph = False"

fun advance :: "position \<Rightarrow> TransactionStateUpdate \<Rightarrow> position" where
  "advance OutOfOrder event = OutOfOrder"
| "advance Terminated event = OutOfOrder"
| "advance p (StateError e inStep) = Terminated"
| "advance p (StateUpdate st ph) = (if follows p ph then After ph else OutOfOrder)"

definition position_after :: "TransactionStateUpdate list \<Rightarrow> position" where
  "position_after evs = foldl advance Before evs"

definition phase_sequence_ok :: "TransactionStateUpdate list \<Rightarrow> bool" where
  "phase_sequence_ok evs \<longleftrightarrow> position_after evs \<noteq> OutOfOrder"

definition phases :: "TransactionStateUpdate list \<Rightarrow> TransactionTrackingEventType list" where
  "phases evs = map (\<lambda>ev. case ev of StateUpdate st ph \<Rightarrow> ph | StateError e ph \<Rightarrow> ph) evs"

subsection \<open>Status updates, as the specification words them\<close>

text \<open>The statuses carried by the events \<open>UPDATE_OF_STATUS_OF_PENDING_TX\<close>.\<close>

fun update_statuses :: "TransactionStateUpdate list \<Rightarrow> StatusOfTransaction list" where
  "update_statuses [] = []"
| "update_statuses (StateUpdate (StatusState st) UPDATE_OF_STATUS_OF_PENDING_TX # evs) =
     st # update_statuses evs"
| "update_statuses (ev # evs) = update_statuses evs"

text \<open>A sequence of statuses with consecutive elements of equal \<open>status\<close> field removed.\<close>

fun without_consecutive_duplicates :: "StatusOfTransaction list \<Rightarrow> StatusOfTransaction list" where
  "without_consecutive_duplicates [] = []"
| "without_consecutive_duplicates [x] = [x]"
| "without_consecutive_duplicates (x # y # ys) =
     (if status x = status y then without_consecutive_duplicates (x # ys)
      else x # without_consecutive_duplicates (y # ys))"

text \<open>
  The same, for the statuses that follow one whose \<open>status\<close> is known (or none): the
  leading statuses equal to it are removed as well.
\<close>

fun without_duplicates_after ::
  "StatusOfTransaction option \<Rightarrow> StatusOfTransaction list \<Rightarrow> StatusOfTransaction list" where
  "without_duplicates_after prev [] = []"
| "without_duplicates_after prev (x # xs) =
     (if (case prev of None \<Rightarrow> False | Some p \<Rightarrow> status p = status x)
      then without_duplicates_after prev xs
      else x # without_duplicates_after (Some x) xs)"

text \<open>The statuses that the status requests return, read off the stimuli of a run.\<close>

fun answers :: "stimulus list \<Rightarrow> StatusOfTransaction list" where
  "answers [] = []"
| "answers (StatusReturns (Inr st) # xs) = st # answers xs"
| "answers (x # xs) = answers xs"

text \<open>
  The stimuli of a polling phase that starts with \<open>n\<close> status requests in flight: ticks and
  answers, in any interleaving in which every answer is that of a request in flight. With
  the first status that is not \<open>PENDING\<close>, and with the first request that fails, the
  polling is over: only ticks follow.
\<close>

fun polled :: "nat \<Rightarrow> stimulus list \<Rightarrow> bool" where
  "polled n [] = True"
| "polled n (PollTick # xs) = polled (Suc n) xs"
| "polled n (StatusReturns (Inr st) # xs) =
     (0 < n \<and>
      (if status st = STATUS_PENDING then polled (n - 1) xs
       else list_all (\<lambda>x. x = PollTick) xs))"
| "polled n (StatusReturns (Inl m) # xs) = (0 < n \<and> list_all (\<lambda>x. x = PollTick) xs)"
| "polled n (x # xs) = False"

subsection \<open>Observations on a run\<close>

text \<open>The errors carried by the error events, in the order of their emission.\<close>

fun reported_errors :: "TransactionStateUpdate list \<Rightarrow> tx_error list" where
  "reported_errors [] = []"
| "reported_errors (StateError e inStep # evs) = e # reported_errors evs"
| "reported_errors (StateUpdate st ph # evs) = reported_errors evs"

definition initiated_event :: "pipeline_options \<Rightarrow> TransactionStateUpdate" where
  "initiated_event opts = StateUpdate (IntentState (intent opts)) INITIATED"

definition is_confirm :: "stimulus \<Rightarrow> bool" where
  "is_confirm x = (case x of UserConfirms \<Rightarrow> True | _ \<Rightarrow> False)"

subsection \<open>Invariants of a run\<close>

text \<open>
  What holds in every state that a run reaches. Before the intent has been emitted
  nothing has happened; while the build request is in flight only \<open>INITIATED\<close> has been
  tracked; nothing is signed, finalized, submitted or confirmed before there is a built
  transaction, and nothing is polled before there is a pending one.
\<close>

definition base_inv :: "pipeline_options \<Rightarrow> pipeline_state \<Rightarrow> bool" where
  "base_inv opts s \<longleftrightarrow>
     (\<not> intentEmitted s \<longrightarrow>
        events s = [] \<and> calls s = [] \<and> completion s = Open \<and> \<not> buildInFlight s \<and>
        builtSlot s = None \<and> sourceLive s \<and> finalizeLive s)
   \<and> (buildInFlight s \<longrightarrow>
        events s = [initiated_event opts] \<and> calls s = [BuildTransactionCall (intent opts)] \<and>
        completion s = Open \<and> builtSlot s = None \<and> sourceLive s \<and> finalizeLive s)
   \<and> (builtSlot s = None \<longrightarrow>
        signInFlight s = 0 \<and> finalizeInFlight s = 0 \<and> submitInFlight s = 0 \<and>
        pendingSlot s = None \<and> \<not> confirmHandle s \<and> \<not> confirmSlot s)
   \<and> (pendingSlot s = None \<longrightarrow> statusInFlight s = 0)"

text \<open>A state in which the build has failed: no stimulus has an effect that is observed.\<close>

definition spent :: "pipeline_state \<Rightarrow> bool" where
  "spent s \<longleftrightarrow>
     intentEmitted s \<and> \<not> buildInFlight s \<and> builtSlot s = None \<and> signInFlight s = 0 \<and>
     finalizeInFlight s = 0 \<and> submitInFlight s = 0 \<and> pendingSlot s = None \<and>
     statusInFlight s = 0 \<and> \<not> confirmHandle s"

text \<open>
  The completion subject and the error events agree: the subject has failed exactly when
  an error event has been emitted, with the error of the first one; once it has
  completed, no stage that could report an error is live.
\<close>

definition completion_inv :: "pipeline_state \<Rightarrow> bool" where
  "completion_inv s \<longleftrightarrow>
     (case completion s of
        Open \<Rightarrow> reported_errors (events s) = []
      | Errored e \<Rightarrow> (\<exists>rest. reported_errors (events s) = e # rest)
      | Completed t \<Rightarrow>
          reported_errors (events s) = [] \<and> \<not> finalizeLive s \<and> finalizeInFlight s = 0 \<and>
          submitInFlight s = 0 \<and> statusInFlight s = 0 \<and> \<not> statusLive s)"

text \<open>With an intent that cannot be signed, the pipeline never gets beyond the build.\<close>

definition unsignable_inv :: "pipeline_options \<Rightarrow> pipeline_state \<Rightarrow> bool" where
  "unsignable_inv opts s \<longleftrightarrow>
     signInFlight s = 0 \<and> finalizeInFlight s = 0 \<and> submitInFlight s = 0 \<and>
     pendingSlot s = None \<and> statusInFlight s = 0 \<and>
     list_all (\<lambda>c. c = BuildTransactionCall (intent opts)) (calls s)"

text \<open>
  While the polling can still ask for a status, the last status that passed
  \<open>distinctUntilChanged\<close> is \<open>PENDING\<close>, if there is one.
\<close>

definition pending_status_inv :: "pipeline_state \<Rightarrow> bool" where
  "pending_status_inv s \<longleftrightarrow>
     (\<not> statusLive s \<and> statusInFlight s = 0)
   \<or> (case lastStatus s of None \<Rightarrow> True | Some prev \<Rightarrow> status prev = STATUS_PENDING)"

text \<open>
  While the confirmation is signalled at most once, the state of the operators is
  determined by the position that the tracked events have reached.
\<close>

definition idle_from_signing :: "pipeline_state \<Rightarrow> bool" where
  "idle_from_signing s \<longleftrightarrow>
     signInFlight s = 0 \<and> finalizeInFlight s = 0 \<and> submitInFlight s = 0 \<and>
     pendingSlot s = None \<and> statusInFlight s = 0"

fun linear_at :: "position \<Rightarrow> pipeline_state \<Rightarrow> bool" where
  "linear_at Before s =
     (\<not> intentEmitted s \<and> \<not> buildInFlight s \<and> builtSlot s = None \<and> \<not> confirmHandle s \<and>
      \<not> confirmSlot s \<and> idle_from_signing s)"
| "linear_at (After INITIATED) s =
     (intentEmitted s \<and> builtSlot s = None \<and> \<not> confirmHandle s \<and> \<not> confirmSlot s \<and>
      sourceLive s \<and> idle_from_signing s)"
| "linear_at (After BUILT_FROM_INTENT) s = False"
| "linear_at (After ASKED_FOR_CONFIRMATION) s =
     (intentEmitted s \<and> \<not> buildInFlight s \<and> \<not> confirmSlot s \<and> sourceLive s \<and>
      idle_from_signing s)"
| "linear_at (After CONFIRMED) s =
     (intentEmitted s \<and> \<not> buildInFlight s \<and> confirmSlot s \<and> signInFlight s \<le> 1 \<and>
      finalizeInFlight s = 0 \<and> submitInFlight s = 0 \<and> pendingSlot s = None \<and>
      statusInFlight s = 0)"
| "linear_at (After SIGNED) s =
     (intentEmitted s \<and> \<not> buildInFlight s \<and> confirmSlot s \<and> signInFlight s = 0 \<and>
      finalizeInFlight s \<le> 1 \<and> submitInFlight s = 0 \<and> pendingSlot s = None \<and>
      statusInFlight s = 0)"
| "linear_at (After FINALIZED) s =
     (intentEmitted s \<and> \<not> buildInFlight s \<and> confirmSlot s \<and> signInFlight s = 0 \<and>
      finalizeInFlight s = 0 \<and> submitInFlight s \<le> 1 \<and> pendingSlot s = None \<and>
      statusInFlight s = 0)"
| "linear_at (After SUBMITTED) s =
     (intentEmitted s \<and> \<not> buildInFlight s \<and> confirmSlot s \<and> signInFlight s = 0 \<and>
      finalizeInFlight s = 0 \<and> submitInFlight s = 0)"
| "linear_at (After UPDATE_OF_STATUS_OF_PENDING_TX) s =
     (intentEmitted s \<and> \<not> buildInFlight s \<and> confirmSlot s \<and> signInFlight s = 0 \<and>
      finalizeInFlight s = 0 \<and> submitInFlight s = 0)"
| "linear_at (After COMPLETED) s =
     (intentEmitted s \<and> \<not> buildInFlight s \<and> confirmSlot s \<and> signInFlight s = 0 \<and>
      finalizeInFlight s = 0 \<and> submitInFlight s = 0 \<and> statusInFlight s = 0 \<and>
      \<not> statusLive s)"
| "linear_at Terminated s =
     (intentEmitted s \<and> \<not> buildInFlight s \<and> signInFlight s = 0 \<and> finalizeInFlight s = 0 \<and>
      submitInFlight s = 0 \<and> statusInFlight s = 0 \<and>
      (pendingSlot s = None \<or> \<not> statusLive s) \<and> (confirmSlot s \<or> \<not> confirmHandle s))"
| "linear_at OutOfOrder s = False"

definition linear_inv :: "pipeline_options \<Rightarrow> pipeline_state \<Rightarrow> bool" where
  "linear_inv opts s \<longleftrightarrow>
     (confirmHandle s \<longrightarrow> userConfirmation opts = Manual \<and> builtSlot s \<noteq> None)
   \<and> linear_at (position_after (events s)) s"

text \<open>
  While the confirmation is signalled at most once and neither an error nor \<open>COMPLETED\<close>
  has been tracked, the finalizing step is subscribed and the completion is open.
\<close>

definition reporting_inv :: "pipeline_state \<Rightarrow> bool" where
  "reporting_inv s \<longleftrightarrow>
     position_after (events s) = Terminated \<or> position_after (events s) = After COMPLETED
   \<or> (finalizeLive s \<and> completion s = Open)"

subsection \<open>The failure of a stage\<close>

text \<open>
  The error with which the signing step rejects a built transaction, if it does.
\<close>

definition rejection :: "pipeline_options \<Rightarrow> BuiltTransaction \<Rightarrow> tx_error option" where
  "rejection opts unsignedTx =
     (case signUnsignedTx (intent opts) unsignedTx of Inl e \<Rightarrow> Some e | Inr r \<Rightarrow> None)"

text \<open>
  The failure that a delivery means for the stage that awaits it: a request in flight
  for the build, the signature, the finalizing or the submission answers with an error;
  the confirmation reaches the signing step (with the built transaction when the
  confirmation is skipped, with \<open>confirm()\<close> otherwise) and the step rejects the intent; a
  status request in flight answers \<open>FAILED\<close>.
\<close>

fun failure_of :: "pipeline_options \<Rightarrow> pipeline_state \<Rightarrow> stimulus \<Rightarrow> tx_error option" where
  "failure_of opts s (BuildReturns (Inl m)) =
     (if buildInFlight s then Some (BuildTxFromIntentErr m) else None)"
| "failure_of opts s (BuildReturns (Inr builtTx)) =
     (if buildInFlight s \<and> userConfirmation opts = Skip then rejection opts builtTx else None)"
| "failure_of opts s UserConfirms =
     (if confirmHandle s \<and> sourceLive s
      then (case builtSlot s of None \<Rightarrow> None | Some builtTx \<Rightarrow> rejection opts builtTx)
      else None)"
| "failure_of opts s (SignReturns (Inl m)) =
     (if 0 < signInFlight s then Some (SigningErr m) else None)"
| "failure_of opts s (FinalizeReturns (Inl m)) =
     (if 0 < finalizeInFlight s then Some (FinalizeTxErr m) else None)"
| "failure_of opts s (SubmitReturns (Inl m)) =
     (if 0 < submitInFlight s then Some (SubmitSignedTxErr m) else None)"
| "failure_of opts s (StatusReturns (Inr st)) =
     (if 0 < statusInFlight s \<and> status st = STATUS_FAILED
      then Some (StatusFailedErr (StatusOfTransaction.txID st)) else None)"
| "failure_of opts s x = None"

text \<open>
  A delivery that takes the pipeline from \<open>s\<close> to \<open>s'\<close> reports the error \<open>e\<close> twice: no
  error had been tracked and the completion was open; the events of \<open>s'\<close> continue those
  of \<open>s\<close> and hold one error event, which carries \<open>e\<close> and is the last event; and the
  completion has failed with \<open>e\<close>.
\<close>

definition ends_with_error :: "tx_error \<Rightarrow> TransactionStateUpdate list \<Rightarrow> bool" where
  "ends_with_error e evs \<longleftrightarrow>
     evs \<noteq> [] \<and>
     (case last evs of StateError e' inStep \<Rightarrow> e' = e | StateUpdate st ph \<Rightarrow> False)"

definition reported_twice :: "tx_error \<Rightarrow> pipeline_state \<Rightarrow> pipeline_state \<Rightarrow> bool" where
  "reported_twice e s s' \<longleftrightarrow>
     reported_errors (events s) = [] \<and> completion s = Open
   \<and> take (length (events s)) (events s') = events s
   \<and> reported_errors (events s') = [e] \<and> ends_with_error e (events s')
   \<and> completion s' = Errored e"

subsection \<open>Sample values\<close>

definition transfer_of :: "string \<Rightarrow> IntendedAction" where
  "transfer_of name = \<lparr>type = TOKEN_TRANSFER, rri_name = ascii name\<rparr>"

definition options_xrd_skip :: pipeline_options where
  "options_xrd_skip =
     \<lparr>intent = \<lparr>actions = [transfer_of ''xrd'']\<rparr>, userConfirmation = Skip,
      publicKey = ''key''\<rparr>"

definition options_xrd_manual :: pipeline_options where
  "options_xrd_manual =
     \<lparr>intent = \<lparr>actions = [transfer_of ''xrd'']\<rparr>, userConfirmation = Manual,
      publicKey = ''key''\<rparr>"

definition options_foo_bar :: pipeline_options where
  "options_foo_bar =
     \<lparr>intent = \<lparr>actions = [transfer_of ''foo'', transfer_of ''bar'']\<rparr>,
      userConfirmation = Skip, publicKey = ''key''\<rparr>"

definition options_foo_bar_manual :: pipeline_options where
  "options_foo_bar_manual =
     \<lparr>intent = \<lparr>actions = [transfer_of ''foo'', transfer_of ''bar'']\<rparr>,
      userConfirmation = Manual, publicKey = ''key''\<rparr>"

definition built_sample :: BuiltTransaction where
  "built_sample = \<lparr>BuiltTransaction.transaction = ''blob'', fee = 1\<rparr>"

definition signed_sample :: SignedTransaction where
  "signed_sample =
     \<lparr>SignedTransaction.transaction = ''blob'', signature = ''sig'',
      publicKeyOfSigner = ''key''\<rparr>"

definition finalized_sample :: FinalizedTransaction where
  "finalized_sample = \<lparr>FinalizedTransaction.txID = ''id''\<rparr>"

definition pending_sample :: PendingTransaction where
  "pending_sample = \<lparr>PendingTransaction.txID = ''id''\<rparr>"

definition status_sample :: "TransactionStatus \<Rightarrow> StatusOfTransaction" where
  "status_sample st = \<lparr>StatusOfTransaction.txID = ''id'', status = st\<rparr>"

text \<open>The stimuli of a run that reaches the polling, the confirmation being skipped.\<close>

definition until_submitted :: "stimulus list" where
  "until_submitted =
     [IntentEmits, BuildReturns (Inr built_sample), SignReturns (Inr ''sig''),
      FinalizeReturns (Inr finalized_sample), SubmitReturns (Inr pending_sample)]"

section \<open>Properties of the APDU builders\<close>

lemma bindE_simps [simp]: "bindE (Inl e) f = Inl e" "bindE (Inr x) f = f x"
  by (simp_all add: bindE_def)

lemma bindE_eq_Inr: "bindE m f = Inr y \<longleftrightarrow> (\<exists>x. m = Inr x \<and> f x = Inr y)"
  by (cases m) simp_all

lemma writeUInt32BE_Inr:
  "writeUInt32BE v = Inr w \<Longrightarrow> w = u32_be v \<and> 0 \<le> v \<and> v \<le> 0xFFFFFFFF"
  by (auto simp: writeUInt32BE_def split: if_splits)

lemma length_u32_be [simp]: "length (u32_be v) = 4"
  by (simp add: u32_be_def)

lemma write_components_Inr:
  "write_components cs = Inr b \<Longrightarrow> b = concat (map (\<lambda>c. u32_be (index c)) cs)"
proof (induction cs arbitrary: b)
  case Nil
  then show ?case by simp
next
  case (Cons c cs)
  then show ?case
    by (auto simp: bindE_eq_Inr dest: writeUInt32BE_Inr)
qed

lemma write_components_in_range:
  "\<forall>c \<in> set cs. 0 \<le> index c \<and> index c \<le> 0xFFFFFFFF \<Longrightarrow>
   write_components cs = Inr (concat (map (\<lambda>c. u32_be (index c)) cs))"
  by (induction cs) (auto simp: writeUInt32BE_def)

lemma length_concat_u32_be:
  "length (concat (map (\<lambda>c. u32_be (f c)) cs)) = 4 * length cs"
  by (induction cs) auto

lemma hdPathToBuffer_length:
  "hdPathToBuffer p = Inr b \<Longrightarrow> length b = path_length p"
  by (auto simp: hdPathToBuffer_def hdPathComponentsToBuffer_def bindE_eq_Inr writeUInt8_def
      path_length_def length_concat_u32_be split: if_splits dest!: write_components_Inr)

lemma hdPathToBuffer_rejects_coin_type:
  "component_value (coinType p) \<noteq> RADIX_COIN_TYPE \<or> \<not> isHardened (coinType p) \<Longrightarrow>
   hdPathToBuffer p = Inl ExpectedCoinType"
  by (simp add: hdPathToBuffer_def hdPathComponentsToBuffer_def)

subsection \<open>The encoding of HD paths\<close>

text \<open>
  C8, as stated, at its literal input: the path \<open>m/44'/536'/0'/0/0\<close> is not encoded as
  \<open>05 80000054 80000218 80000000 00000000 00000000\<close>. The purpose 44 is \<open>0x2C\<close>; \<open>0x54\<close>
  is 84.
\<close>

theorem hdPathToBuffer_default_path_counterexample:
  "hdPathToBuffer default_radix_path \<noteq>
     Inr [0x05, 0x80, 0x00, 0x00, 0x54, 0x80, 0x00, 0x02, 0x18, 0x80, 0x00, 0x00, 0x00,
          0x00, 0x00, 0x00, 0x00, 0x00, 0x00, 0x00, 0x00]"
  by (simp add: hdPathToBuffer_def hdPathComponentsToBuffer_def default_radix_path_def
      HDPathRadix_create_def BIP32PathComponent_create_def hardenedIncrement_def
      component_value_def RADIX_COIN_TYPE_def writeUInt32BE_def u32_be_def writeUInt8_def)

text \<open>
  C8, amended: the path \<open>m/44'/536'/0'/0/0\<close> is encoded as the 21 bytes
  \<open>05 8000002C 80000218 80000000 00000000 00000000\<close>. In general, for a path whose coin
  type is the hardened 536 and whose components have values below \<open>2^31\<close>, at most 255 of
  them, the encoding is the component count in one byte followed by one big-endian
  32-bit word per component: the value of the component, plus \<open>0x80000000\<close> when the
  component is hardened.
\<close>

theorem hdPathToBuffer_encoding:
  "hdPathToBuffer default_radix_path =
     Inr [0x05, 0x80, 0x00, 0x00, 0x2C, 0x80, 0x00, 0x02, 0x18, 0x80, 0x00, 0x00, 0x00,
          0x00, 0x00, 0x00, 0x00, 0x00, 0x00, 0x00, 0x00]
   \<and> (\<forall>p vs.
        coinType p = BIP32PathComponent_create RADIX_COIN_TYPE True \<and>
        pathComponents p = map (\<lambda>(v, h). BIP32PathComponent_create v h) vs \<and>
        (\<forall>(v, h) \<in> set vs. 0 \<le> v \<and> v < 0x80000000) \<and>
        length vs \<le> 255 \<longrightarrow>
        hdPathToBuffer p =
          Inr (of_nat (length vs) #
               concat (map (\<lambda>(v, h). u32_be (if h then v + 0x80000000 else v)) vs)))"
proof (intro conjI allI impI)
  show "hdPathToBuffer default_radix_path =
     Inr [0x05, 0x80, 0x00, 0x00, 0x2C, 0x80, 0x00, 0x02, 0x18, 0x80, 0x00, 0x00, 0x00,
          0x00, 0x00, 0x00, 0x00, 0x00, 0x00, 0x00, 0x00]"
    by (simp add: hdPathToBuffer_def hdPathComponentsToBuffer_def default_radix_path_def
        HDPathRadix_create_def BIP32PathComponent_create_def hardenedIncrement_def
        component_value_def RADIX_COIN_TYPE_def writeUInt32BE_def u32_be_def writeUInt8_def)
next
  fix p :: HDPathRadix and vs :: "(int \<times> bool) list"
  assume a: "coinType p = BIP32PathComponent_create RADIX_COIN_TYPE True \<and>
        pathComponents p = map (\<lambda>(v, h). BIP32PathComponent_create v h) vs \<and>
        (\<forall>(v, h) \<in> set vs. 0 \<le> v \<and> v < 0x80000000) \<and>
        length vs \<le> 255"
  from a have a1: "coinType p = BIP32PathComponent_create RADIX_COIN_TYPE True"
    and a2: "pathComponents p = map (\<lambda>(v, h). BIP32PathComponent_create v h) vs"
    and a3: "\<forall>(v, h) \<in> set vs. 0 \<le> v \<and> v < 0x80000000"
    and a4: "length vs \<le> 255"
    by blast+
  have in_range: "\<forall>c \<in> set (pathComponents p). 0 \<le> index c \<and> index c \<le> 0xFFFFFFFF"
    using a2 a3 by (auto simp: BIP32PathComponent_create_def hardenedIncrement_def)
  have words: "map (\<lambda>c. u32_be (index c)) (pathComponents p) =
      map (\<lambda>(v, h). u32_be (if h then v + 0x80000000 else v)) vs"
    using a2 by (auto simp: BIP32PathComponent_create_def hardenedIncrement_def)
  have comps: "hdPathComponentsToBuffer p =
      Inr (concat (map (\<lambda>(v, h). u32_be (if h then v + 0x80000000 else v)) vs))"
    using write_components_in_range [OF in_range] a1 words
    by (simp add: hdPathComponentsToBuffer_def BIP32PathComponent_create_def
        component_value_def)
  show "hdPathToBuffer p =
      Inr (of_nat (length vs) #
           concat (map (\<lambda>(v, h). u32_be (if h then v + 0x80000000 else v)) vs))"
    using comps a2 a4 by (simp add: hdPathToBuffer_def writeUInt8_def)
qed

theorem hdPathToBuffer_encoding_witness:
  "coinType (HDPathRadix_create (44, True) (536, True) (2, True) (1, False) (3, False)) =
     BIP32PathComponent_create RADIX_COIN_TYPE True
   \<and> pathComponents (HDPathRadix_create (44, True) (536, True) (2, True) (1, False) (3, False)) =
     map (\<lambda>(v, h). BIP32PathComponent_create v h)
       [(44, True), (536, True), (2, True), (1, False), (3, False)]
   \<and> list_all (\<lambda>(v, h). 0 \<le> v \<and> v < 0x80000000)
        [(44 :: int, True), (536, True), (2, True), (1, False), (3, False)]
   \<and> length [(44 :: int, True), (536, True), (2, True), (1, False), (3, False)] \<le> 255
   \<and> hdPathToBuffer (HDPathRadix_create (44, True) (536, True) (2, True) (1, False) (3, False)) =
     Inr [0x05, 0x80, 0x00, 0x00, 0x2C, 0x80, 0x00, 0x02, 0x18, 0x80, 0x00, 0x00, 0x02,
          0x00, 0x00, 0x00, 0x01, 0x00, 0x00, 0x00, 0x03]"
proof -
  let ?p = "HDPathRadix_create (44, True) (536, True) (2, True) (1, False) (3, False)"
  let ?vs = "[(44 :: int, True), (536, True), (2, True), (1, False), (3, False)]"
  have h: "coinType ?p = BIP32PathComponent_create RADIX_COIN_TYPE True \<and>
      pathComponents ?p = map (\<lambda>(v, h). BIP32PathComponent_create v h) ?vs \<and>
      (\<forall>(v, h) \<in> set ?vs. 0 \<le> v \<and> v < 0x80000000) \<and> length ?vs \<le> 255"
    by (simp add: HDPathRadix_create_def RADIX_COIN_TYPE_def)
  from hdPathToBuffer_encoding have
    "hdPathToBuffer ?p =
      Inr (of_nat (length ?vs) #
           concat (map (\<lambda>(v, h). u32_be (if h then v + 0x80000000 else v)) ?vs))"
    using h by blast
  then show ?thesis
    using h by (simp add: u32_be_def)
qed

subsection \<open>The frames of a transaction stream\<close>

lemma signTxStream_parameters:
  "p1 (signTxStream i) = 0x49 \<and> p2 (signTxStream i) = (if isLastInstruction i then 0x01 else 0x00)
   \<and> data (signTxStream i) = Some (instructionBytes i)"
  by (simp add: signTxStream_def makeAPDU_def partial_apdu_def nullish_def
      SINGLE_RADIX_ENGINE_INSTRUCTION_APDU_def)

lemma instruction_packages_last_flags:
  "map isLastInstruction (instruction_packages is) =
     replicate (length is - 1) False @ (if is = [] then [] else [True])"
proof (induction "is")
  case Nil
  then show ?case by simp
next
  case (Cons i "is")
  then show ?case by (cases "is") simp_all
qed

lemma instruction_packages_bytes:
  "map instructionBytes (instruction_packages is) = is"
  by (induction "is") simp_all

lemma signTx_two_instruction_stream:
  "signTxFrames
     \<lparr>path = default_radix_path, txByteCount = 0x100,
      nonNativeTokenRriHRP = Some (ascii ''foo''), numberOfInstructions = 2\<rparr>
     [[0x01, 0x02], [0x03]] =
   Inr [\<lparr>cla = 0xAA, ins = DO_SIGN_TX, p1 = 0x4D, p2 = 0x00,
         data = Some ([0x05, 0x80, 0x00, 0x00, 0x2C, 0x80, 0x00, 0x02, 0x18, 0x80, 0x00, 0x00,
                       0x00, 0x00, 0x00, 0x00, 0x00, 0x00, 0x00, 0x00, 0x00]
                      @ [0x00, 0x00, 0x01, 0x00] @ [0x00, 0x02] @ [0x03] @ [0x66, 0x6F, 0x6F]),
         requiredResponseStatusCodeFromDevice = [0x9000]\<rparr>,
        \<lparr>cla = 0xAA, ins = DO_SIGN_TX, p1 = 0x49, p2 = 0x00, data = Some [0x01, 0x02],
         requiredResponseStatusCodeFromDevice = [0x9000]\<rparr>,
        \<lparr>cla = 0xAA, ins = DO_SIGN_TX, p1 = 0x49, p2 = 0x01, data = Some [0x03],
         requiredResponseStatusCodeFromDevice = [0x9000]\<rparr>]"
  by (simp add: signTxFrames_def signTxInitialSetupPackage_def signTxStream_def
      hdPathToBuffer_def hdPathComponentsToBuffer_def default_radix_path_def
      HDPathRadix_create_def BIP32PathComponent_create_def hardenedIncrement_def
      component_value_def RADIX_COIN_TYPE_def writeUInt32BE_def u32_be_def writeUInt8_def
      writeUInt16BE_def makeAPDU_def partial_apdu_def nullish_def radixCLA_def SW_OK_def
      js_length_def ascii_def Buffer_from_utf8_def is_lead_surrogate_def
      is_trail_surrogate_def utf8_of_code_point_def FIRST_METADATA_APDU_def
      SINGLE_RADIX_ENGINE_INSTRUCTION_APDU_def)

lemma utf8_units_ascii:
  "\<forall>c \<in> set cs. c < 0x80 \<Longrightarrow> length (utf8_units cs) = length cs"
proof (induction cs rule: utf8_units.induct)
  case 1
  then show ?case by simp
next
  case (2 c)
  then show ?case
    by (simp add: is_lead_surrogate_def is_trail_surrogate_def utf8_of_code_point_def)
next
  case (3 c d cs)
  then show ?case
    by (simp add: is_lead_surrogate_def is_trail_surrogate_def utf8_of_code_point_def)
qed

lemma Buffer_from_utf8_ascii:
  "\<forall>c \<in> set hrp. c < 0x80 \<Longrightarrow> int (length (Buffer_from_utf8 hrp)) = js_length hrp"
proof -
  assume a: "\<forall>c \<in> set hrp. c < 0x80"
  have "\<forall>n \<in> set (map unat hrp). n < 0x80"
  proof
    fix n
    assume "n \<in> set (map unat hrp)"
    then obtain c where c: "c \<in> set hrp" "n = unat c" by auto
    with a have "c < 0x80" by blast
    then have "unat c < unat (0x80 :: 16 word)" by (simp only: word_less_nat_alt)
    with c show "n < 0x80" by simp
  qed
  then show ?thesis
    by (simp add: Buffer_from_utf8_def js_length_def utf8_units_ascii)
qed

text \<open>
  C7, at the input where \<open>nonNativeTokenRriHRP\<close> is the one-letter string of the code unit
  \<open>0xE9\<close> (e with an acute accent): the
  length byte of the metadata frame is \<open>01\<close>, the number of UTF-16 code units of the
  string, and the two bytes \<open>C3 A9\<close> of its UTF-8 encoding follow it. The length byte
  counts bytes in \<open>doKeyExchange\<close> and \<open>doSignHash\<close>, which measure the buffer they append.
\<close>

theorem signTxInitialSetupPackage_hrp_length_mismatch:
  "signTxInitialSetupPackage
     \<lparr>path = default_radix_path, txByteCount = 0x100,
      nonNativeTokenRriHRP = Some [0xE9], numberOfInstructions = 2\<rparr> =
   Inr \<lparr>cla = 0xAA, ins = DO_SIGN_TX, p1 = 0x4D, p2 = 0x00,
        data = Some ([0x05, 0x80, 0x00, 0x00, 0x2C, 0x80, 0x00, 0x02, 0x18, 0x80, 0x00, 0x00,
                      0x00, 0x00, 0x00, 0x00, 0x00, 0x00, 0x00, 0x00, 0x00]
                     @ [0x00, 0x00, 0x01, 0x00] @ [0x00, 0x02] @ [0x01] @ [0xC3, 0xA9]),
        requiredResponseStatusCodeFromDevice = [0x9000]\<rparr>
   \<and> Buffer_from_utf8 [0xE9] = [0xC3, 0xA9]"
  by (simp add: signTxFrames_def signTxInitialSetupPackage_def signTxStream_def
      hdPathToBuffer_def hdPathComponentsToBuffer_def default_radix_path_def
      HDPathRadix_create_def BIP32PathComponent_create_def hardenedIncrement_def
      component_value_def RADIX_COIN_TYPE_def writeUInt32BE_def u32_be_def writeUInt8_def
      writeUInt16BE_def makeAPDU_def partial_apdu_def nullish_def radixCLA_def SW_OK_def
      js_length_def ascii_def Buffer_from_utf8_def is_lead_surrogate_def
      is_trail_surrogate_def utf8_of_code_point_def FIRST_METADATA_APDU_def
      SINGLE_RADIX_ENGINE_INSTRUCTION_APDU_def)

subsection \<open>The invariants of a frame\<close>

text \<open>
  C9, as stated, at a concrete input: the instruction frame of an instruction of 256
  bytes carries 256 bytes of data.
\<close>

theorem signTxStream_data_counterexample:
  "\<not> data_length
        (signTxStream \<lparr>instructionBytes = replicate 256 0, isLastInstruction = True\<rparr>) \<le> 255"
  by (simp add: signTxStream_def partial_apdu_def data_length_def makeAPDU_def)

text \<open>
  C9, amended: every frame that a builder returns has class \<open>0xAA\<close>, \<open>p1\<close> and \<open>p2\<close> in
  \<open>[0, 255]\<close> and the expected status codes \<open>[0x9000]\<close>. The builders do not bound the data:
  its length is that of the payload assembled (none for \<open>getVersion\<close> and \<open>getAppName\<close>, the
  encoded path for \<open>getPublicKey\<close>, the path, a length byte and the key or hash for
  \<open>doKeyExchange\<close> and \<open>doSignHash\<close>, the path, seven bytes and the encoded prefix for the
  metadata frame, the instruction for an instruction frame), so it is at most 255 exactly
  when that payload is.
\<close>

theorem builders_frame_invariants:
  "RadixAPDU_build c = Inr f \<Longrightarrow>
   frame_header_ok f \<and> data_length f = payload_length c
   \<and> (data_length f \<le> 255 \<longleftrightarrow> payload_length c \<le> 255)"
proof -
  assume b: "RadixAPDU_build c = Inr f"
  have "frame_header_ok f \<and> data_length f = payload_length c"
  proof (cases c)
    case Call_getAppName
    with b show ?thesis
      by (auto simp: getAppName_def partial_apdu_def data_length_def makeAPDU_def
          frame_header_ok_def nullish_def radixCLA_def SW_OK_def)
  next
    case Call_getVersion
    with b show ?thesis
      by (auto simp: getVersion_def partial_apdu_def data_length_def makeAPDU_def
          frame_header_ok_def nullish_def radixCLA_def SW_OK_def)
  next
    case (Call_getPublicKey p d)
    with b show ?thesis
      by (auto simp: getPublicKey_def bindE_eq_Inr partial_apdu_def data_length_def
          makeAPDU_def frame_header_ok_def nullish_def radixCLA_def SW_OK_def
          parameterValueForDisplayAddressOnLedger_def dest: hdPathToBuffer_length)
  next
    case (Call_doKeyExchange p pk d)
    with b show ?thesis
      by (auto simp: doKeyExchange_def bindE_eq_Inr partial_apdu_def data_length_def
          makeAPDU_def frame_header_ok_def nullish_def radixCLA_def SW_OK_def
          parameterValueForDisplayECDHInputOnLedger_def writeUInt8_def Let_def
          split: if_splits dest: hdPathToBuffer_length)
  next
    case (Call_doSignHash p d h)
    with b show ?thesis
      by (auto simp: doSignHash_def bindE_eq_Inr partial_apdu_def data_length_def
          makeAPDU_def frame_header_ok_def nullish_def radixCLA_def SW_OK_def
          parameterValueForDisplayAddressOnLedger_def writeUInt8_def Let_def
          split: if_splits dest: hdPathToBuffer_length)
  next
    case (Call_signTX_initialSetup i)
    with b show ?thesis
      by (auto simp: signTxInitialSetupPackage_def bindE_eq_Inr partial_apdu_def
          data_length_def makeAPDU_def frame_header_ok_def nullish_def radixCLA_def SW_OK_def
          FIRST_METADATA_APDU_def writeUInt8_def writeUInt16BE_def writeUInt32BE_def
          u32_be_def Let_def js_length_def
          split: if_splits option.splits dest!: hdPathToBuffer_length)
  next
    case (Call_signTX_stream i)
    with b show ?thesis
      by (auto simp: signTxStream_def partial_apdu_def data_length_def makeAPDU_def
          frame_header_ok_def nullish_def radixCLA_def SW_OK_def
          SINGLE_RADIX_ENGINE_INSTRUCTION_APDU_def Let_def)
  qed
  then show ?thesis by simp
qed

theorem builders_frame_invariants_witness:
  "RadixAPDU_build (Call_doSignHash default_radix_path False (replicate 32 0x11)) =
     Inr \<lparr>cla = 0xAA, ins = DO_SIGN_HASH, p1 = 0x00, p2 = 0x00,
          data = Some ([0x05, 0x80, 0x00, 0x00, 0x2C, 0x80, 0x00, 0x02, 0x18, 0x80, 0x00, 0x00,
                        0x00, 0x00, 0x00, 0x00, 0x00, 0x00, 0x00, 0x00, 0x00]
                       @ [0x20] @ replicate 32 0x11),
          requiredResponseStatusCodeFromDevice = [0x9000]\<rparr>
   \<and> frame_header_ok
       \<lparr>cla = 0xAA, ins = DO_SIGN_HASH, p1 = 0x00, p2 = 0x00,
        data = Some ([0x05, 0x80, 0x00, 0x00, 0x2C, 0x80, 0x00, 0x02, 0x18, 0x80, 0x00, 0x00,
                      0x00, 0x00, 0x00, 0x00, 0x00, 0x00, 0x00, 0x00, 0x00]
                     @ [0x20] @ replicate 32 0x11),
        requiredResponseStatusCodeFromDevice = [0x9000]\<rparr>
   \<and> data_length
       \<lparr>cla = 0xAA, ins = DO_SIGN_HASH, p1 = 0x00, p2 = 0x00,
        data = Some ([0x05, 0x80, 0x00, 0x00, 0x2C, 0x80, 0x00, 0x02, 0x18, 0x80, 0x00, 0x00,
                      0x00, 0x00, 0x00, 0x00, 0x00, 0x00, 0x00, 0x00, 0x00]
                     @ [0x20] @ replicate 32 0x11),
        requiredResponseStatusCodeFromDevice = [0x9000]\<rparr> = 54"
proof -
  let ?f = "\<lparr>cla = 0xAA, ins = DO_SIGN_HASH, p1 = 0x00, p2 = 0x00,
        data = Some ([0x05, 0x80, 0x00, 0x00, 0x2C, 0x80, 0x00, 0x02, 0x18, 0x80, 0x00, 0x00,
                      0x00, 0x00, 0x00, 0x00, 0x00, 0x00, 0x00, 0x00, 0x00]
                     @ [0x20] @ replicate 32 (0x11 :: byte)),
        requiredResponseStatusCodeFromDevice = [0x9000]\<rparr>"
  have h: "RadixAPDU_build (Call_doSignHash default_radix_path False (replicate 32 0x11)) = Inr ?f"
    by (simp add: doSignHash_def hdPathToBuffer_def hdPathComponentsToBuffer_def
        default_radix_path_def HDPathRadix_create_def BIP32PathComponent_create_def
        hardenedIncrement_def component_value_def RADIX_COIN_TYPE_def writeUInt32BE_def
        u32_be_def writeUInt8_def makeAPDU_def partial_apdu_def nullish_def radixCLA_def
        SW_OK_def parameterValueForDisplayAddressOnLedger_def)
  from builders_frame_invariants [OF h] have
    "frame_header_ok ?f \<and> data_length ?f = payload_length
       (Call_doSignHash default_radix_path False (replicate 32 0x11))"
    by simp
  then show ?thesis
    using h by (simp add: path_length_def default_radix_path_def HDPathRadix_create_def)
qed

section \<open>The round trip of token amounts\<close>

lemma UInt256_of_hex_of_snoc:
  "UInt256_of_hex_of (xs @ [x]) = UInt256_of_hex_of xs * 256 + unat x"
  by (simp add: UInt256_of_hex_of_def)

lemma byte_256: "(256 :: byte) = 0"
  by simp

lemma byte_of_shifted: "(of_nat (v * 256 + unat x) :: byte) = x"
  by (simp add: byte_256)

lemma unat_byte_less: "unat (x :: byte) < 256"
  using unsigned_less [of x, where 'a = nat] by simp

lemma div_shifted: "(v * 256 + unat (x :: byte)) div 256 = v"
  using unat_byte_less [of x] by simp

lemma UInt256_of_hex_of_zeros: "UInt256_of_hex_of (replicate n 0 @ bs) = UInt256_of_hex_of bs"
proof -
  have "foldl (\<lambda>acc x. acc * 256 + unat x) 0 (replicate n (0 :: byte)) = 0"
    by (induction n) simp_all
  then show ?thesis by (simp add: UInt256_of_hex_of_def)
qed

lemma rev_little_endian_bytes:
  "rev (little_endian_bytes (length b) (UInt256_of_hex_of b)) = b"
proof (induction b rule: rev_induct)
  case Nil
  then show ?case by simp
next
  case (snoc x xs)
  then show ?case
    by (simp add: UInt256_of_hex_of_snoc div_shifted byte_of_shifted
        del: of_nat_add of_nat_mult)
qed

lemma amountToBuffer_of_hex:
  "length b = 32 \<Longrightarrow> amountToBuffer (UInt256_of_hex_of b) = b"
  using rev_little_endian_bytes [of b] by (simp add: amountToBuffer_def toByteArray_def)

lemma uint256FromReadBuffer_Inr:
  "uint256FromReadBuffer r = (Inr u, r') \<Longrightarrow>
   r = take 32 r @ r' \<and> length (take 32 r) = 32 \<and> u = UInt256_of_hex_of (take 32 r)"
  by (auto simp: uint256FromReadBuffer_def readNextBuffer_def uint256ByteCount_def
      map_result_def split: if_splits)

text \<open>
  C10: reading a \<open>UInt256\<close> from a buffer of 32 bytes and serialising it with
  \<open>amountToBuffer\<close> gives the buffer back; and when the address serialiser returns the
  bytes that the address parser consumed, a Tokens substate that was parsed has
  \<open>toBuffer()\<close> equal to the substate-type byte followed by exactly the bytes consumed
  from the reader.
\<close>

theorem tokens_round_trip:
  assumes "\<forall>s a s'. REAddress_fromBufferReader s = (Inr a, s') \<longrightarrow> s = REAddress_toBuffer a @ s'"
  shows "(length b = 32 \<longrightarrow>
           (\<exists>u. uint256FromReadBuffer (b @ rest) = (Inr u, rest) \<and> amountToBuffer u = b))
       \<and> (fromBufferReader REAddress_fromBufferReader REAddress_toBuffer TOKENS r = (Inr t, r') \<longrightarrow>
           (\<exists>consumed. r = consumed @ r' \<and> toBuffer t = TOKENS # consumed))"
proof (intro conjI impI)
  assume "length b = 32"
  then show "\<exists>u. uint256FromReadBuffer (b @ rest) = (Inr u, rest) \<and> amountToBuffer u = b"
    by (simp add: uint256FromReadBuffer_def readNextBuffer_def uint256ByteCount_def
        map_result_def amountToBuffer_of_hex)
next
  assume p: "fromBufferReader REAddress_fromBufferReader REAddress_toBuffer TOKENS r = (Inr t, r')"
  obtain res0 r1 where e0: "REAddress_fromBufferReader r = (res0, r1)" by force
  obtain res1 r2 where e1: "REAddress_fromBufferReader r1 = (res1, r2)" by force
  obtain res2 r3 where e2: "uint256FromReadBuffer r2 = (res2, r3)" by force
  from p e0 e1 e2 obtain rri0 owner0 amount0 where
    v: "res0 = Inr rri0" "res1 = Inr owner0" "res2 = Inr amount0"
    and t: "toBuffer t = [TOKENS] @ REAddress_toBuffer rri0 @ REAddress_toBuffer owner0
        @ amountToBuffer amount0"
    and r3: "r3 = r'"
    by (auto simp: fromBufferReader_def map_result_def combine3_def split: sum.splits)
  from assms e0 v(1) have c0: "r = REAddress_toBuffer rri0 @ r1" by blast
  from assms e1 v(2) have c1: "r1 = REAddress_toBuffer owner0 @ r2" by blast
  from uint256FromReadBuffer_Inr e2 v(3) have
    c2: "r2 = take 32 r2 @ r3" "length (take 32 r2) = 32" "amount0 = UInt256_of_hex_of (take 32 r2)"
    by blast+
  from c2(2,3) have a: "amountToBuffer amount0 = take 32 r2"
    by (simp only: amountToBuffer_of_hex)
  have "r = (REAddress_toBuffer rri0 @ REAddress_toBuffer owner0 @ take 32 r2) @ r'"
    using c0 c1 c2(1) r3 by (metis append.assoc)
  moreover have "toBuffer t = TOKENS # (REAddress_toBuffer rri0 @ REAddress_toBuffer owner0 @ take 32 r2)"
    using t a by simp
  ultimately show "\<exists>consumed. r = consumed @ r' \<and> toBuffer t = TOKENS # consumed"
    by blast
qed

theorem tokens_round_trip_witness:
  "length (replicate 31 (0 :: byte) @ [0x0A]) = 32
   \<and> uint256FromReadBuffer ((replicate 31 0 @ [0x0A]) @ [0xFF]) = (Inr 10, [0xFF])
   \<and> amountToBuffer 10 = replicate 31 0 @ [0x0A]
   \<and> fromBufferReader one_byte_address (\<lambda>a. [a]) 0x03
        ([0x01, 0x04] @ (replicate 31 0 @ [0x0A]) @ [0xFF]) =
       (Inr \<lparr>rri = 0x01, owner = 0x04, amount = 10, substateType = 0x03,
             toBuffer = 0x03 # ([0x01, 0x04] @ (replicate 31 0 @ [0x0A]))\<rparr>, [0xFF])"
proof -
  let ?b = "replicate 31 (0 :: byte) @ [0x0A]"
  let ?r = "[0x01, 0x04] @ ?b @ [0xFF :: byte]"
  have h: "\<forall>s a s'. one_byte_address s = (Inr a, s') \<longrightarrow> s = (\<lambda>a. [a]) a @ s'"
    by (auto simp: one_byte_address_def split: list.splits)
  have len: "length ?b = 32" by simp
  have ten: "UInt256_of_hex_of (replicate 31 0 @ [0x0A]) = 10"
    by (simp only: UInt256_of_hex_of_zeros) (simp add: UInt256_of_hex_of_def)
  have u: "uint256FromReadBuffer (?b @ [0xFF]) = (Inr 10, [0xFF])"
    using ten
    by (simp add: uint256FromReadBuffer_def readNextBuffer_def uint256ByteCount_def
        map_result_def)
  have u': "uint256FromReadBuffer (replicate 31 0 @ [0x0A, 0xFF]) = (Inr 10, [0xFF])"
    using u by simp
  obtain t where p: "fromBufferReader one_byte_address (\<lambda>a. [a]) 0x03 ?r = (Inr t, [0xFF])"
    and t: "rri t = 0x01" "owner t = 0x04" "amount t = 10" "substateType t = 0x03"
    using u' by (simp add: fromBufferReader_def one_byte_address_def map_result_def combine3_def)
  note rt = tokens_round_trip [where REAddress_fromBufferReader = one_byte_address
      and REAddress_toBuffer = "\<lambda>a. [a]" and b = "?b" and rest = "[0xFF]" and TOKENS = "0x03"
      and r = "?r" and t = t and r' = "[0xFF]", OF h]
  from rt len u have a: "amountToBuffer 10 = ?b" by auto
  from rt p obtain consumed where c: "?r = consumed @ [0xFF]" "toBuffer t = 0x03 # consumed"
    by blast
  from c(1) have "consumed = [0x01, 0x04] @ ?b"
    by (metis append.assoc append_same_eq)
  with c(2) t have "t = \<lparr>rri = 0x01, owner = 0x04, amount = 10, substateType = 0x03,
             toBuffer = 0x03 # ([0x01, 0x04] @ ?b)\<rparr>"
    by simp
  with p len u a show ?thesis by simp
qed

section \<open>Properties of the transaction pipeline\<close>

lemmas pipeline_defs =
  on_build_def on_confirm_def on_sign_def on_finalize_def on_submit_def
  on_tick_def on_status_def track_def request_def completion_error_def
  completion_next_complete_def trackError_def txSubs_unsubscribe_def signing_failed_def
  confirmed_def request_status_def

lemmas sample_defs =
  options_xrd_skip_def options_xrd_manual_def options_foo_bar_def
  options_foo_bar_manual_def built_sample_def
  signed_sample_def finalized_sample_def pending_sample_def status_sample_def
  until_submitted_def transfer_of_def

lemmas run_defs =
  run_def run_from_def initial_state_def on_intent_def pipeline_defs signUnsignedTx_def
  nonXRDHRPsOfRRIsInTx_def xrd_def ascii_def Let_def

subsection \<open>Runs\<close>

lemma run_from_Nil [simp]: "run_from opts s [] = s"
  by (simp add: run_from_def)

lemma run_from_Cons [simp]: "run_from opts s (x # xs) = run_from opts (step opts s x) xs"
  by (simp add: run_from_def)

lemma run_from_append: "run_from opts s (xs @ ys) = run_from opts (run_from opts s xs) ys"
  by (simp add: run_from_def)

lemma run_append: "run opts (xs @ ys) = run_from opts (run opts xs) ys"
  by (simp add: run_def run_from_append)

lemma run_from_invariant:
  assumes "P s" and "\<And>s x. P s \<Longrightarrow> P (step opts s x)"
  shows "P (run_from opts s xs)"
  using assms(1)
proof (induction xs arbitrary: s)
  case Nil
  then show ?case by simp
next
  case (Cons x xs)
  then show ?case by (simp add: assms(2))
qed

lemma on_intent_go:
  "sourceLive s \<Longrightarrow> \<not> intentEmitted s \<Longrightarrow>
   on_intent opts s =
     s\<lparr>events := events s @ [initiated_event opts],
       calls := calls s @ [BuildTransactionCall (intent opts)],
       intentEmitted := True, buildInFlight := True\<rparr>"
  by (simp add: on_intent_def track_def request_def initiated_event_def)

lemma on_intent_skip:
  "\<not> (sourceLive s \<and> \<not> intentEmitted s) \<Longrightarrow> on_intent opts s = s"
  by (auto simp: on_intent_def)

subsection \<open>The invariant of every run\<close>

lemma base_inv_initial: "base_inv opts initial_state"
  by (simp add: base_inv_def initial_state_def)

lemma base_inv_on_intent: "base_inv opts s \<Longrightarrow> base_inv opts (on_intent opts s)"
proof (cases "sourceLive s \<and> \<not> intentEmitted s")
  case True
  assume "base_inv opts s"
  with True show ?thesis
    by (simp add: on_intent_go base_inv_def)
next
  case False
  assume "base_inv opts s"
  with False show ?thesis
    using on_intent_skip [of s opts] by simp
qed

lemma base_inv_step: "base_inv opts s \<Longrightarrow> base_inv opts (step opts s x)"
proof (cases x)
  case IntentEmits
  assume "base_inv opts s"
  with IntentEmits show ?thesis by (simp add: base_inv_on_intent)
next
  case (BuildReturns r)
  assume "base_inv opts s"
  with BuildReturns show ?thesis
    by (auto simp: base_inv_def pipeline_defs Let_def split: sum.splits prod.splits)
next
  case UserConfirms
  assume "base_inv opts s"
  with UserConfirms show ?thesis
    by (auto simp: base_inv_def pipeline_defs Let_def
        split: sum.splits prod.splits option.splits)
next
  case (SignReturns r)
  assume "base_inv opts s"
  with SignReturns show ?thesis
    by (auto simp: base_inv_def pipeline_defs Let_def
        split: sum.splits prod.splits option.splits)
next
  case (FinalizeReturns r)
  assume "base_inv opts s"
  with FinalizeReturns show ?thesis
    by (auto simp: base_inv_def pipeline_defs Let_def split: sum.splits)
next
  case (SubmitReturns r)
  assume "base_inv opts s"
  with SubmitReturns show ?thesis
    by (auto simp: base_inv_def pipeline_defs Let_def split: sum.splits)
next
  case PollTick
  assume "base_inv opts s"
  with PollTick show ?thesis
    by (auto simp: base_inv_def pipeline_defs Let_def split: option.splits)
next
  case (StatusReturns r)
  assume "base_inv opts s"
  with StatusReturns show ?thesis
    by (auto simp: base_inv_def pipeline_defs Let_def split: sum.splits option.splits)
qed

lemma base_inv_run: "base_inv opts (run opts stimuli)"
  unfolding run_def
  by (rule run_from_invariant [where P = "base_inv opts"])
     (simp_all add: base_inv_initial base_inv_step)

subsection \<open>After a failed build\<close>

lemma spent_step:
  "spent s \<Longrightarrow>
   spent (step opts s x) \<and> events (step opts s x) = events s \<and>
   completion (step opts s x) = completion s"
proof (cases x)
  case IntentEmits
  assume "spent s"
  with IntentEmits show ?thesis
    using on_intent_skip [of s opts] by (simp add: spent_def)
next
  case (BuildReturns r)
  assume "spent s"
  with BuildReturns show ?thesis by (simp add: spent_def on_build_def)
next
  case UserConfirms
  assume "spent s"
  with UserConfirms show ?thesis by (simp add: spent_def on_confirm_def)
next
  case (SignReturns r)
  assume "spent s"
  with SignReturns show ?thesis by (simp add: spent_def on_sign_def)
next
  case (FinalizeReturns r)
  assume "spent s"
  with FinalizeReturns show ?thesis by (simp add: spent_def on_finalize_def)
next
  case (SubmitReturns r)
  assume "spent s"
  with SubmitReturns show ?thesis by (simp add: spent_def on_submit_def)
next
  case PollTick
  assume "spent s"
  with PollTick show ?thesis by (simp add: spent_def on_tick_def)
next
  case (StatusReturns r)
  assume "spent s"
  with StatusReturns show ?thesis by (simp add: spent_def on_status_def)
qed

lemma spent_run_from:
  "spent s \<Longrightarrow>
   events (run_from opts s xs) = events s \<and> completion (run_from opts s xs) = completion s"
proof (induction xs arbitrary: s)
  case Nil
  then show ?case by simp
next
  case (Cons x xs)
  from spent_step [OF Cons.prems, of opts x] Cons.IH [of "step opts s x"]
  show ?case by simp
qed

lemma build_failure_effect:
  assumes "base_inv opts s" and "buildInFlight s"
  shows "spent (on_build opts (Inl m) s)"
    and "events (on_build opts (Inl m) s) =
      [initiated_event opts, StateError (BuildTxFromIntentErr m) BUILT_FROM_INTENT]"
    and "completion (on_build opts (Inl m) s) = Errored (BuildTxFromIntentErr m)"
  using assms by (auto simp: base_inv_def spent_def pipeline_defs)

subsection \<open>The completion and the error events\<close>

lemma reported_errors_append:
  "reported_errors (xs @ ys) = reported_errors xs @ reported_errors ys"
  by (induction xs rule: reported_errors.induct) simp_all

lemma completion_inv_initial: "completion_inv initial_state"
  by (simp add: completion_inv_def initial_state_def)

lemma completion_inv_step:
  assumes b: "base_inv opts s" and c: "completion_inv s"
  shows "completion_inv (step opts s x)"
proof (cases x)
  case IntentEmits
  show ?thesis
  proof (cases "sourceLive s \<and> \<not> intentEmitted s")
    case True
    with b c IntentEmits show ?thesis
      by (simp add: on_intent_go base_inv_def completion_inv_def initiated_event_def)
  next
    case False
    with c IntentEmits show ?thesis
      using on_intent_skip [of s opts] by simp
  qed
next
  case (BuildReturns r)
  with b c show ?thesis
    by (auto simp: base_inv_def completion_inv_def pipeline_defs reported_errors_append
        initiated_event_def Let_def split: sum.splits prod.splits completion_state.splits)
next
  case UserConfirms
  with c show ?thesis
    by (auto simp: completion_inv_def pipeline_defs reported_errors_append Let_def
        split: sum.splits prod.splits option.splits completion_state.splits)
next
  case (SignReturns r)
  with c show ?thesis
    by (auto simp: completion_inv_def pipeline_defs reported_errors_append Let_def
        split: sum.splits prod.splits option.splits completion_state.splits)
next
  case (FinalizeReturns r)
  with c show ?thesis
    by (auto simp: completion_inv_def pipeline_defs reported_errors_append Let_def
        split: sum.splits completion_state.splits)
next
  case (SubmitReturns r)
  with c show ?thesis
    by (auto simp: completion_inv_def pipeline_defs reported_errors_append Let_def
        split: sum.splits completion_state.splits)
next
  case PollTick
  with c show ?thesis
    by (auto simp: completion_inv_def pipeline_defs Let_def
        split: option.splits completion_state.splits)
next
  case (StatusReturns r)
  with c show ?thesis
    by (auto simp: completion_inv_def pipeline_defs reported_errors_append Let_def
        split: sum.splits option.splits completion_state.splits)
qed

lemma completion_inv_run: "completion_inv (run opts stimuli)"
proof -
  have "base_inv opts (run opts stimuli) \<and> completion_inv (run opts stimuli)"
    unfolding run_def
    by (rule run_from_invariant [where P = "\<lambda>s. base_inv opts s \<and> completion_inv s"])
       (simp_all add: base_inv_initial base_inv_step completion_inv_initial completion_inv_step)
  then show ?thesis by simp
qed

subsection \<open>Intents that cannot be signed\<close>

lemma set_unique [simp]: "set (unique xs) = set xs"
  by (induction xs) auto

lemma distinct_unique [simp]: "distinct (unique xs)"
  by (induction xs) auto

lemma length_unique: "length (unique xs) = card (set xs)"
  using distinct_card [of "unique xs"] by simp

lemma signUnsignedTx_several:
  "2 \<le> card (set (nonXRDHRPsOfRRIsInTx i)) \<Longrightarrow> signUnsignedTx i b = Inl MultipleNonNativeRRIs"
  by (simp add: signUnsignedTx_def length_unique)

lemma unsignable_inv_initial: "unsignable_inv opts initial_state"
  by (simp add: unsignable_inv_def initial_state_def)

lemma unsignable_inv_step:
  assumes u: "\<And>b. signUnsignedTx (intent opts) b = Inl MultipleNonNativeRRIs"
    and i: "unsignable_inv opts s"
  shows "unsignable_inv opts (step opts s x)"
proof (cases x)
  case IntentEmits
  show ?thesis
  proof (cases "sourceLive s \<and> \<not> intentEmitted s")
    case True
    with i IntentEmits show ?thesis
      by (simp add: on_intent_go unsignable_inv_def)
  next
    case False
    with i IntentEmits show ?thesis
      using on_intent_skip [of s opts] by simp
  qed
next
  case (BuildReturns r)
  with i show ?thesis
    by (auto simp: unsignable_inv_def pipeline_defs u Let_def split: sum.splits)
next
  case UserConfirms
  with i show ?thesis
    by (auto simp: unsignable_inv_def pipeline_defs u Let_def split: option.splits)
next
  case (SignReturns r)
  with i show ?thesis by (simp add: unsignable_inv_def on_sign_def)
next
  case (FinalizeReturns r)
  with i show ?thesis by (simp add: unsignable_inv_def on_finalize_def)
next
  case (SubmitReturns r)
  with i show ?thesis by (simp add: unsignable_inv_def on_submit_def)
next
  case PollTick
  with i show ?thesis by (simp add: unsignable_inv_def on_tick_def)
next
  case (StatusReturns r)
  with i show ?thesis by (simp add: unsignable_inv_def on_status_def)
qed

lemma unsignable_inv_run:
  assumes "\<And>b. signUnsignedTx (intent opts) b = Inl MultipleNonNativeRRIs"
  shows "unsignable_inv opts (run opts stimuli)"
  unfolding run_def
  by (rule run_from_invariant [where P = "unsignable_inv opts"])
     (simp_all add: unsignable_inv_initial unsignable_inv_step assms)

lemma skipped_confirmation_of_unsignable:
  assumes u: "signUnsignedTx (intent opts) b = Inl MultipleNonNativeRRIs"
    and k: "userConfirmation opts = Skip"
    and i: "base_inv opts s" and f: "buildInFlight s"
  shows "reported_errors (events (on_build opts (Inr b) s)) = [MultipleNonNativeRRIs]"
    and "completion (on_build opts (Inr b) s) = Errored MultipleNonNativeRRIs"
  using i f by (auto simp: base_inv_def pipeline_defs u k initiated_event_def)

subsection \<open>Status updates\<close>

lemma update_statuses_append:
  "update_statuses (xs @ ys) = update_statuses xs @ update_statuses ys"
  by (induction xs rule: update_statuses.induct) simp_all

lemma without_duplicates_after_None:
  "without_duplicates_after None xs = without_consecutive_duplicates xs"
  and without_duplicates_after_Some:
  "x # without_duplicates_after (Some x) xs = without_consecutive_duplicates (x # xs)"
proof (induction xs arbitrary: x)
  case Nil
  {
    case 1
    show ?case by simp
  next
    case 2
    show ?case by simp
  }
next
  case (Cons y ys)
  {
    case 1
    from Cons(2) [of y] show ?case by simp
  next
    case 2
    from Cons(2) [of x] Cons(2) [of y] show ?case by simp
  }
qed

lemma answers_ticks: "list_all (\<lambda>x. x = PollTick) xs \<Longrightarrow> answers xs = []"
  by (induction xs) auto

lemma ticks_after_polling:
  "\<not> statusLive s \<Longrightarrow> list_all (\<lambda>x. x = PollTick) xs \<Longrightarrow> run_from opts s xs = s"
  by (induction xs) (auto simp: on_tick_def)

lemma status_of_cases:
  obtains "status st = STATUS_PENDING" | "status st = STATUS_CONFIRMED"
  | "status st = STATUS_FAILED"
  by (cases "status st") blast+

lemma no_update_before_status:
  "lastStatus (run opts stimuli) = None \<Longrightarrow> update_statuses (events (run opts stimuli)) = []"
proof -
  let ?P = "\<lambda>s::pipeline_state. lastStatus s = None \<longrightarrow> update_statuses (events s) = []"
  have "?P (run_from opts initial_state stimuli)"
  proof (rule run_from_invariant [where P = ?P])
    show "?P initial_state" by (simp add: initial_state_def)
  next
    fix s x
    assume p: "?P s"
    show "?P (step opts s x)"
    proof (cases x)
      case IntentEmits
      show ?thesis
      proof (cases "sourceLive s \<and> \<not> intentEmitted s")
        case True
        with p IntentEmits show ?thesis
          by (simp add: on_intent_go update_statuses_append initiated_event_def)
      next
        case False
        with p IntentEmits show ?thesis
          using on_intent_skip [of s opts] by simp
      qed
    next
      case (BuildReturns r)
      with p show ?thesis
        by (auto simp: pipeline_defs update_statuses_append Let_def
            split: sum.splits prod.splits)
    next
      case UserConfirms
      with p show ?thesis
        by (auto simp: pipeline_defs update_statuses_append Let_def
            split: sum.splits prod.splits option.splits)
    next
      case (SignReturns r)
      with p show ?thesis
        by (auto simp: pipeline_defs update_statuses_append Let_def
            split: sum.splits option.splits)
    next
      case (FinalizeReturns r)
      with p show ?thesis
        by (auto simp: pipeline_defs update_statuses_append Let_def split: sum.splits)
    next
      case (SubmitReturns r)
      with p show ?thesis
        by (auto simp: pipeline_defs update_statuses_append Let_def
            split: sum.splits option.splits)
    next
      case PollTick
      with p show ?thesis
        by (auto simp: pipeline_defs Let_def split: option.splits)
    next
      case (StatusReturns r)
      with p show ?thesis
        by (auto simp: pipeline_defs update_statuses_append Let_def
            split: sum.splits option.splits)
    qed
  qed
  then show "lastStatus (run opts stimuli) = None \<Longrightarrow>
      update_statuses (events (run opts stimuli)) = []"
    by (simp add: run_def)
qed

text \<open>
  The effect of a status on a polling that has passed on nothing but \<open>PENDING\<close> so far.
\<close>

lemma on_status_repeated:
  assumes "0 < statusInFlight s" and "lastStatus s = Some prev"
    and "status prev = status st"
  shows "on_status (Inr st) s = s\<lparr>statusInFlight := statusInFlight s - 1\<rparr>"
  using assms by (simp add: on_status_def Let_def)

lemma on_status_fresh_pending:
  assumes "0 < statusInFlight s" and "status st = STATUS_PENDING"
    and "case lastStatus s of None \<Rightarrow> True | Some prev \<Rightarrow> status prev \<noteq> status st"
  shows "on_status (Inr st) s =
      s\<lparr>statusInFlight := statusInFlight s - 1, lastStatus := Some st,
        events := events s @ [StateUpdate (StatusState st) UPDATE_OF_STATUS_OF_PENDING_TX]\<rparr>"
  using assms by (simp add: on_status_def track_def Let_def split: option.splits)

lemma on_status_final:
  assumes "0 < statusInFlight s" and "status st \<noteq> STATUS_PENDING"
    and "case lastStatus s of None \<Rightarrow> True | Some prev \<Rightarrow> status prev = STATUS_PENDING"
  shows "\<not> statusLive (on_status (Inr st) s)"
    and "update_statuses (events (on_status (Inr st) s)) = update_statuses (events s) @ [st]"
  using assms
  by (cases st rule: status_of_cases;
      simp add: pipeline_defs update_statuses_append Let_def split: option.splits)+

lemma on_status_error:
  assumes "0 < statusInFlight s"
  shows "\<not> statusLive (on_status (Inl m) s)"
    and "events (on_status (Inl m) s) = events s"
  using assms by (simp_all add: on_status_def Let_def)

lemma on_tick_polling:
  assumes "statusLive s" and "pendingSlot s = Some p"
  shows "statusLive (on_tick s)" and "pendingSlot (on_tick s) = Some p"
    and "lastStatus (on_tick s) = lastStatus s" and "events (on_tick s) = events s"
    and "statusInFlight (on_tick s) = Suc (statusInFlight s)"
  using assms by (simp_all add: on_tick_def request_status_def request_def Let_def)

lemma polled_run_from:
  assumes "statusLive s" and "pendingSlot s = Some p"
    and "case lastStatus s of None \<Rightarrow> True | Some prev \<Rightarrow> status prev = STATUS_PENDING"
    and "polled (statusInFlight s) xs"
  shows "update_statuses (events (run_from opts s xs)) =
      update_statuses (events s) @ without_duplicates_after (lastStatus s) (answers xs)"
  using assms
proof (induction xs arbitrary: s)
  case Nil
  then show ?case by simp
next
  case (Cons x xs)
  show ?case
  proof (cases x)
    case PollTick
    note t = on_tick_polling [OF Cons.prems(1) Cons.prems(2)]
    from Cons.prems(4) PollTick t(5) have "polled (statusInFlight (on_tick s)) xs"
      by simp
    with Cons.IH [of "on_tick s"] t Cons.prems(3) PollTick show ?thesis
      by simp
  next
    case (StatusReturns r)
    show ?thesis
    proof (cases r)
      case (Inl m)
      with Cons.prems(4) StatusReturns
      have n: "0 < statusInFlight s" and k: "list_all (\<lambda>x. x = PollTick) xs"
        by simp_all
      note e = on_status_error [OF n, of m]
      from ticks_after_polling [OF e(1) k, of opts] e(2) answers_ticks [OF k]
        StatusReturns Inl
      show ?thesis by simp
    next
      case (Inr st)
      with Cons.prems(4) StatusReturns have n: "0 < statusInFlight s"
        by simp
      show ?thesis
      proof (cases "status st = STATUS_PENDING")
        case False
        with Cons.prems(4) StatusReturns Inr have k: "list_all (\<lambda>x. x = PollTick) xs"
          by simp
        note e = on_status_final [OF n False Cons.prems(3)]
        from False Cons.prems(3)
        have "without_duplicates_after (lastStatus s) [st] = [st]"
          by (auto split: option.splits)
        with ticks_after_polling [OF e(1) k, of opts] e(2) answers_ticks [OF k]
          StatusReturns Inr
        show ?thesis by simp
      next
        case True
        with Cons.prems(4) StatusReturns Inr
        have k: "polled (statusInFlight s - 1) xs"
          by simp
        show ?thesis
        proof (cases "lastStatus s")
          case None
          then have "case lastStatus s of None \<Rightarrow> True
              | Some prev \<Rightarrow> status prev \<noteq> status st"
            by simp
          note e = on_status_fresh_pending [OF n True this]
          from Cons.IH [of "on_status (Inr st) s"] e Cons.prems(1,2) True k
            StatusReturns Inr None
          show ?thesis by (simp add: update_statuses_append)
        next
          case (Some prev)
          with Cons.prems(3) True have q: "status prev = status st"
            by simp
          note e = on_status_repeated [OF n Some q]
          from Cons.IH [of "on_status (Inr st) s"] e Cons.prems(1,2,3) k
            StatusReturns Inr Some q
          show ?thesis by simp
        qed
      qed
    qed
  qed (use Cons.prems(4) in simp_all)
qed
subsection \<open>The order of the phases\<close>

lemma position_after_append:
  "position_after (evs @ es) = foldl advance (position_after evs) es"
  by (simp add: position_after_def)

lemma position_cases:
  obtains "p = Before" | "p = After INITIATED" | "p = After BUILT_FROM_INTENT"
  | "p = After ASKED_FOR_CONFIRMATION" | "p = After CONFIRMED" | "p = After SIGNED"
  | "p = After FINALIZED" | "p = After SUBMITTED" | "p = After UPDATE_OF_STATUS_OF_PENDING_TX"
  | "p = After COMPLETED" | "p = Terminated" | "p = OutOfOrder"
proof (cases p)
  case Before
  then show ?thesis using that by blast
next
  case (After ph)
  then show ?thesis using that by (cases ph) blast+
next
  case Terminated
  then show ?thesis using that by blast
next
  case OutOfOrder
  then show ?thesis using that by blast
qed

lemma not_Skip_iff: "c \<noteq> Skip \<longleftrightarrow> c = Manual"
  by (cases c) simp_all

lemma linear_inv_initial: "linear_inv opts initial_state"
  by (simp add: linear_inv_def initial_state_def position_after_def idle_from_signing_def)

lemma linear_inv_on_intent: "linear_inv opts s \<Longrightarrow> linear_inv opts (on_intent opts s)"
proof (cases "sourceLive s \<and> \<not> intentEmitted s")
  case True
  assume "linear_inv opts s"
  with True show ?thesis
    by (cases "position_after (events s)" rule: position_cases)
       (simp_all add: on_intent_go linear_inv_def position_after_append initiated_event_def
         idle_from_signing_def)
next
  case False
  assume "linear_inv opts s"
  with False show ?thesis
    using on_intent_skip [of s opts] by simp
qed
lemma linear_inv_on_build: "linear_inv opts s \<Longrightarrow> linear_inv opts (on_build opts r s)"
  by (cases "position_after (events s)" rule: position_cases)
     (auto simp: linear_inv_def pipeline_defs position_after_append idle_from_signing_def
       not_Skip_iff Let_def split: sum.splits prod.splits)
lemma linear_inv_on_confirm:
  "linear_inv opts s \<Longrightarrow> \<not> (confirmHandle s \<and> confirmSlot s) \<Longrightarrow>
   linear_inv opts (on_confirm opts s)"
  by (cases "position_after (events s)" rule: position_cases)
     (auto simp: linear_inv_def pipeline_defs position_after_append idle_from_signing_def
       Let_def split: sum.splits prod.splits option.splits)
lemma linear_inv_on_sign: "linear_inv opts s \<Longrightarrow> linear_inv opts (on_sign opts r s)"
  by (cases "position_after (events s)" rule: position_cases)
     (auto simp: linear_inv_def pipeline_defs position_after_append idle_from_signing_def
       Let_def split: sum.splits option.splits)
lemma linear_inv_on_finalize: "linear_inv opts s \<Longrightarrow> linear_inv opts (on_finalize r s)"
  by (cases "position_after (events s)" rule: position_cases)
     (auto simp: linear_inv_def pipeline_defs position_after_append idle_from_signing_def
       Let_def split: sum.splits)
lemma linear_inv_on_submit: "linear_inv opts s \<Longrightarrow> linear_inv opts (on_submit r s)"
  by (cases "position_after (events s)" rule: position_cases)
     (auto simp: linear_inv_def pipeline_defs position_after_append idle_from_signing_def
       Let_def split: sum.splits)
lemma linear_inv_on_tick: "linear_inv opts s \<Longrightarrow> linear_inv opts (on_tick s)"
  by (cases "position_after (events s)" rule: position_cases)
     (auto simp: linear_inv_def pipeline_defs position_after_append idle_from_signing_def
       Let_def split: option.splits)
lemma linear_inv_on_status: "linear_inv opts s \<Longrightarrow> linear_inv opts (on_status r s)"
  by (cases "position_after (events s)" rule: position_cases)
     (auto simp: linear_inv_def pipeline_defs position_after_append idle_from_signing_def
       Let_def split: sum.splits option.splits)
lemma confirmSlot_step_manual:
  "userConfirmation opts = Manual \<Longrightarrow> \<not> is_confirm x \<Longrightarrow>
   confirmSlot (step opts s x) = confirmSlot s"
proof (cases x)
  case IntentEmits
  then show ?thesis by (simp add: on_intent_def track_def request_def)
next
  case (BuildReturns r)
  assume "userConfirmation opts = Manual"
  with BuildReturns show ?thesis
    by (auto simp: pipeline_defs Let_def split: sum.splits prod.splits)
next
  case UserConfirms
  assume "\<not> is_confirm x"
  with UserConfirms show ?thesis by (simp add: is_confirm_def)
next
  case (SignReturns r)
  then show ?thesis
    by (auto simp: pipeline_defs Let_def split: sum.splits option.splits)
next
  case (FinalizeReturns r)
  then show ?thesis by (auto simp: pipeline_defs Let_def split: sum.splits)
next
  case (SubmitReturns r)
  then show ?thesis by (auto simp: pipeline_defs Let_def split: sum.splits)
next
  case PollTick
  then show ?thesis by (auto simp: pipeline_defs Let_def split: option.splits)
next
  case (StatusReturns r)
  then show ?thesis
    by (auto simp: pipeline_defs Let_def split: sum.splits option.splits)
qed

lemma linear_inv_step:
  assumes "linear_inv opts s" and "is_confirm x \<Longrightarrow> \<not> (confirmHandle s \<and> confirmSlot s)"
  shows "linear_inv opts (step opts s x)"
proof (cases x)
  case IntentEmits
  with assms(1) show ?thesis by (simp add: linear_inv_on_intent)
next
  case (BuildReturns r)
  with assms(1) show ?thesis by (simp add: linear_inv_on_build)
next
  case UserConfirms
  with assms show ?thesis by (simp add: linear_inv_on_confirm is_confirm_def)
next
  case (SignReturns r)
  with assms(1) show ?thesis by (simp add: linear_inv_on_sign)
next
  case (FinalizeReturns r)
  with assms(1) show ?thesis by (simp add: linear_inv_on_finalize)
next
  case (SubmitReturns r)
  with assms(1) show ?thesis by (simp add: linear_inv_on_submit)
next
  case PollTick
  with assms(1) show ?thesis by (simp add: linear_inv_on_tick)
next
  case (StatusReturns r)
  with assms(1) show ?thesis by (simp add: linear_inv_on_status)
qed

lemma linear_inv_run_from:
  assumes "linear_inv opts s"
    and "userConfirmation opts = Skip \<or>
         length (filter is_confirm xs) \<le> (if confirmSlot s then 0 else 1)"
  shows "linear_inv opts (run_from opts s xs)"
  using assms
proof (induction xs arbitrary: s)
  case Nil
  then show ?case by simp
next
  case (Cons x xs)
  have budget: "is_confirm x \<Longrightarrow> \<not> (confirmHandle s \<and> confirmSlot s)"
  proof -
    assume c: "is_confirm x"
    show "\<not> (confirmHandle s \<and> confirmSlot s)"
    proof (cases "userConfirmation opts = Skip")
      case True
      with Cons.prems(1) show ?thesis by (auto simp: linear_inv_def)
    next
      case False
      with Cons.prems(2) c show ?thesis by (auto split: if_splits)
    qed
  qed
  have inv: "linear_inv opts (step opts s x)"
    using Cons.prems(1) budget by (rule linear_inv_step)
  have rest: "userConfirmation opts = Skip \<or>
      length (filter is_confirm xs) \<le> (if confirmSlot (step opts s x) then 0 else 1)"
  proof (cases "userConfirmation opts = Skip")
    case True
    then show ?thesis by simp
  next
    case False
    then have m: "userConfirmation opts = Manual" by (simp add: not_Skip_iff)
    show ?thesis
    proof (cases "is_confirm x")
      case True
      with Cons.prems(2) False show ?thesis by (auto split: if_splits)
    next
      case nc: False
      with Cons.prems(2) False confirmSlot_step_manual [OF m nc, of s]
      show ?thesis by simp
    qed
  qed
  from Cons.IH [OF inv rest] show ?case by simp
qed

text \<open>
  C1, as stated, at a concrete run: with a manual confirmation, \<open>confirm()\<close> invoked
  twice while the signature is awaited makes the pipeline track \<open>CONFIRMED\<close> twice.
\<close>

theorem confirmed_twice_counterexample:
  "phases (events (run options_xrd_manual
      [IntentEmits, BuildReturns (Inr built_sample), UserConfirms, UserConfirms])) =
     [INITIATED, BUILT_FROM_INTENT, ASKED_FOR_CONFIRMATION, CONFIRMED, CONFIRMED]
   \<and> \<not> phase_sequence_ok (events (run options_xrd_manual
      [IntentEmits, BuildReturns (Inr built_sample), UserConfirms, UserConfirms]))"
  by (simp add: run_defs sample_defs phases_def phase_sequence_ok_def position_after_def)

text \<open>
  C1, amended: when the confirmation is skipped, or \<open>confirm()\<close> is invoked at most once,
  the phases of the tracking events of a run are a contiguous prefix of
  \<open>[INITIATED?, BUILT_FROM_INTENT, ASKED_FOR_CONFIRMATION, CONFIRMED, SIGNED, FINALIZED,
  SUBMITTED, UPDATE_OF_STATUS_OF_PENDING_TX*, COMPLETED]\<close>, ended by at most one error
  event, after which no event is tracked.
\<close>

theorem phases_in_order:
  "userConfirmation opts = Skip \<or> length (filter is_confirm stimuli) \<le> 1 \<Longrightarrow>
   phase_sequence_ok (events (run opts stimuli))"
proof -
  assume "userConfirmation opts = Skip \<or> length (filter is_confirm stimuli) \<le> 1"
  then have "userConfirmation opts = Skip \<or>
      length (filter is_confirm stimuli) \<le> (if confirmSlot initial_state then 0 else 1)"
    by (simp add: initial_state_def)
  with linear_inv_initial have "linear_inv opts (run_from opts initial_state stimuli)"
    by (rule linear_inv_run_from)
  then have "linear_at (position_after (events (run opts stimuli))) (run opts stimuli)"
    by (simp add: linear_inv_def run_def)
  then have "position_after (events (run opts stimuli)) \<noteq> OutOfOrder"
    by auto
  then show ?thesis by (simp add: phase_sequence_ok_def)
qed

theorem phases_in_order_witness:
  "length (filter is_confirm
      [IntentEmits, BuildReturns (Inr built_sample), UserConfirms, SignReturns (Inr ''sig''),
       FinalizeReturns (Inr finalized_sample), SubmitReturns (Inr pending_sample), PollTick,
       StatusReturns (Inr (status_sample STATUS_CONFIRMED))]) \<le> 1
   \<and> phase_sequence_ok (events (run options_xrd_manual
      [IntentEmits, BuildReturns (Inr built_sample), UserConfirms, SignReturns (Inr ''sig''),
       FinalizeReturns (Inr finalized_sample), SubmitReturns (Inr pending_sample), PollTick,
       StatusReturns (Inr (status_sample STATUS_CONFIRMED))]))
   \<and> phases (events (run options_xrd_manual
      [IntentEmits, BuildReturns (Inr built_sample), UserConfirms, SignReturns (Inr ''sig''),
       FinalizeReturns (Inr finalized_sample), SubmitReturns (Inr pending_sample), PollTick,
       StatusReturns (Inr (status_sample STATUS_CONFIRMED))])) =
     [INITIATED, BUILT_FROM_INTENT, ASKED_FOR_CONFIRMATION, CONFIRMED, SIGNED, FINALIZED,
      SUBMITTED, UPDATE_OF_STATUS_OF_PENDING_TX, COMPLETED]"
proof -
  let ?xs = "[IntentEmits, BuildReturns (Inr built_sample), UserConfirms,
       SignReturns (Inr ''sig''), FinalizeReturns (Inr finalized_sample),
       SubmitReturns (Inr pending_sample), PollTick,
       StatusReturns (Inr (status_sample STATUS_CONFIRMED))]"
  have h: "length (filter is_confirm ?xs) \<le> 1"
    by (simp add: is_confirm_def)
  then have "userConfirmation options_xrd_manual = Skip \<or> length (filter is_confirm ?xs) \<le> 1"
    by (rule disjI2)
  then have ok: "phase_sequence_ok (events (run options_xrd_manual ?xs))"
    by (rule phases_in_order)
  have "phases (events (run options_xrd_manual ?xs)) =
     [INITIATED, BUILT_FROM_INTENT, ASKED_FOR_CONFIRMATION, CONFIRMED, SIGNED, FINALIZED,
      SUBMITTED, UPDATE_OF_STATUS_OF_PENDING_TX, COMPLETED]"
    by (simp add: run_defs sample_defs phases_def)
  with h ok show ?thesis by blast
qed

subsection \<open>Failures are reported on the events and on the completion\<close>

lemma reported_errors_position:
  "reported_errors evs \<noteq> [] \<Longrightarrow>
   position_after evs = Terminated \<or> position_after evs = OutOfOrder"
proof (induction evs rule: rev_induct)
  case Nil
  then show ?case by simp
next
  case (snoc ev evs)
  show ?case
  proof (cases "reported_errors evs = []")
    case False
    with snoc.IH show ?thesis by (auto simp: position_after_append)
  next
    case True
    with snoc.prems obtain e inStep where "ev = StateError e inStep"
      by (cases ev) (simp_all add: reported_errors_append)
    then show ?thesis
      by (cases "position_after evs") (simp_all add: position_after_append)
  qed
qed

lemma advance_Terminated:
  "advance p ev = Terminated \<Longrightarrow>
   p \<noteq> Terminated \<and> p \<noteq> OutOfOrder \<and> (\<exists>e inStep. ev = StateError e inStep)"
  by (cases p; cases ev) (simp_all split: if_splits)

lemma terminated_events:
  assumes "position_after evs = Terminated"
  shows "\<exists>e. reported_errors evs = [e] \<and> ends_with_error e evs"
proof (cases evs rule: rev_cases)
  case Nil
  with assms show ?thesis by (simp add: position_after_def)
next
  case (snoc before ev)
  with assms have "advance (position_after before) ev = Terminated"
    by (simp add: position_after_append)
  from advance_Terminated [OF this] obtain e inStep
    where p: "position_after before \<noteq> Terminated" "position_after before \<noteq> OutOfOrder"
      and ev: "ev = StateError e inStep"
    by blast
  from p reported_errors_position [of before] have "reported_errors before = []"
    by blast
  with snoc ev show ?thesis
    by (simp add: reported_errors_append ends_with_error_def)
qed

lemma reporting_inv_initial: "reporting_inv initial_state"
  by (simp add: reporting_inv_def initial_state_def)

lemma reporting_inv_step:
  assumes l: "linear_inv opts s" and r: "reporting_inv s"
    and b: "is_confirm x \<Longrightarrow> \<not> (confirmHandle s \<and> confirmSlot s)"
  shows "reporting_inv (step opts s x)"
proof (cases x)
  case IntentEmits
  show ?thesis
  proof (cases "sourceLive s \<and> \<not> intentEmitted s")
    case True
    with l r IntentEmits show ?thesis
      by (cases "position_after (events s)" rule: position_cases)
         (simp_all add: on_intent_go linear_inv_def reporting_inv_def position_after_append
           initiated_event_def)
  next
    case False
    with r IntentEmits show ?thesis
      using on_intent_skip [of s opts] by simp
  qed
next
  case (BuildReturns a)
  with l r show ?thesis
    by (cases "position_after (events s)" rule: position_cases)
       (auto simp: linear_inv_def reporting_inv_def pipeline_defs position_after_append
         idle_from_signing_def Let_def split: sum.splits prod.splits)
next
  case UserConfirms
  with b have "\<not> (confirmHandle s \<and> confirmSlot s)"
    by (simp add: is_confirm_def)
  with l r UserConfirms show ?thesis
    by (cases "position_after (events s)" rule: position_cases)
       (auto simp: linear_inv_def reporting_inv_def pipeline_defs position_after_append
         idle_from_signing_def Let_def split: sum.splits prod.splits option.splits)
next
  case (SignReturns a)
  with l r show ?thesis
    by (cases "position_after (events s)" rule: position_cases)
       (auto simp: linear_inv_def reporting_inv_def pipeline_defs position_after_append
         idle_from_signing_def Let_def split: sum.splits option.splits)
next
  case (FinalizeReturns a)
  with l r show ?thesis
    by (cases "position_after (events s)" rule: position_cases)
       (auto simp: linear_inv_def reporting_inv_def pipeline_defs position_after_append
         idle_from_signing_def Let_def split: sum.splits)
next
  case (SubmitReturns a)
  with l r show ?thesis
    by (cases "position_after (events s)" rule: position_cases)
       (auto simp: linear_inv_def reporting_inv_def pipeline_defs position_after_append
         idle_from_signing_def Let_def split: sum.splits)
next
  case PollTick
  with l r show ?thesis
    by (cases "position_after (events s)" rule: position_cases)
       (auto simp: linear_inv_def reporting_inv_def pipeline_defs position_after_append
         idle_from_signing_def Let_def split: option.splits)
next
  case (StatusReturns a)
  with l r show ?thesis
    by (cases "position_after (events s)" rule: position_cases)
       (auto simp: linear_inv_def reporting_inv_def pipeline_defs position_after_append
         idle_from_signing_def Let_def split: sum.splits option.splits)
qed

lemma confirm_allowed:
  assumes "linear_inv opts s"
    and "userConfirmation opts = Skip \<or>
         length (filter is_confirm (x # xs)) \<le> (if confirmSlot s then 0 else 1)"
    and "is_confirm x"
  shows "\<not> (confirmHandle s \<and> confirmSlot s)"
proof (cases "userConfirmation opts = Skip")
  case True
  with assms(1) show ?thesis by (auto simp: linear_inv_def)
next
  case False
  with assms(2,3) show ?thesis by (auto split: if_splits)
qed

lemma confirm_remaining:
  assumes "userConfirmation opts = Skip \<or>
         length (filter is_confirm (x # xs)) \<le> (if confirmSlot s then 0 else 1)"
  shows "userConfirmation opts = Skip \<or>
         length (filter is_confirm xs) \<le> (if confirmSlot (step opts s x) then 0 else 1)"
proof (cases "userConfirmation opts = Skip")
  case True
  then show ?thesis by simp
next
  case False
  then have m: "userConfirmation opts = Manual" by (simp add: not_Skip_iff)
  show ?thesis
  proof (cases "is_confirm x")
    case True
    with assms False show ?thesis by (auto split: if_splits)
  next
    case nc: False
    with assms False confirmSlot_step_manual [OF m nc, of s]
    show ?thesis by simp
  qed
qed

lemma reporting_inv_run_from:
  assumes "linear_inv opts s" and "reporting_inv s"
    and "userConfirmation opts = Skip \<or>
         length (filter is_confirm xs) \<le> (if confirmSlot s then 0 else 1)"
  shows "reporting_inv (run_from opts s xs)"
  using assms
proof (induction xs arbitrary: s)
  case Nil
  then show ?case by simp
next
  case (Cons x xs)
  note b = confirm_allowed [OF Cons.prems(1) Cons.prems(3)]
  have l: "linear_inv opts (step opts s x)"
    using Cons.prems(1) b by (rule linear_inv_step)
  have r: "reporting_inv (step opts s x)"
    using Cons.prems(1) Cons.prems(2) b by (rule reporting_inv_step)
  from Cons.IH [OF l r confirm_remaining [OF Cons.prems(3)]] show ?case by simp
qed

lemma pending_status_inv_step: "pending_status_inv s \<Longrightarrow> pending_status_inv (step opts s x)"
proof (cases x)
  case IntentEmits
  assume "pending_status_inv s"
  with IntentEmits show ?thesis
    by (cases "sourceLive s \<and> \<not> intentEmitted s")
       (simp_all add: on_intent_def track_def request_def pending_status_inv_def)
next
  case (BuildReturns a)
  assume "pending_status_inv s"
  with BuildReturns show ?thesis
    by (auto simp: pending_status_inv_def pipeline_defs Let_def
        split: sum.splits prod.splits option.splits)
next
  case UserConfirms
  assume "pending_status_inv s"
  with UserConfirms show ?thesis
    by (auto simp: pending_status_inv_def pipeline_defs Let_def
        split: sum.splits prod.splits option.splits)
next
  case (SignReturns a)
  assume "pending_status_inv s"
  with SignReturns show ?thesis
    by (auto simp: pending_status_inv_def pipeline_defs Let_def
        split: sum.splits option.splits)
next
  case (FinalizeReturns a)
  assume "pending_status_inv s"
  with FinalizeReturns show ?thesis
    by (auto simp: pending_status_inv_def pipeline_defs Let_def
        split: sum.splits option.splits)
next
  case (SubmitReturns a)
  assume "pending_status_inv s"
  with SubmitReturns show ?thesis
    by (auto simp: pending_status_inv_def pipeline_defs Let_def
        split: sum.splits option.splits)
next
  case PollTick
  assume "pending_status_inv s"
  with PollTick show ?thesis
    by (auto simp: pending_status_inv_def pipeline_defs Let_def split: option.splits)
next
  case (StatusReturns a)
  assume p: "pending_status_inv s"
  show ?thesis
  proof (cases a)
    case (Inl m)
    with p StatusReturns show ?thesis
      by (auto simp: pending_status_inv_def pipeline_defs Let_def split: option.splits)
  next
    case (Inr st)
    with p StatusReturns show ?thesis
      by (cases st rule: status_of_cases)
         (auto simp: pending_status_inv_def pipeline_defs Let_def split: option.splits)
  qed
qed

lemma pending_status_inv_initial: "pending_status_inv initial_state"
  by (simp add: pending_status_inv_def initial_state_def)

lemma pending_status_inv_run: "pending_status_inv (run opts stimuli)"
  unfolding run_def
  by (rule run_from_invariant [where P = pending_status_inv])
     (simp_all add: pending_status_inv_initial pending_status_inv_step)

lemma unconfirmed_run_from:
  assumes "userConfirmation opts = Manual" and "\<not> confirmSlot s"
    and "filter is_confirm xs = []"
  shows "\<not> confirmSlot (run_from opts s xs)"
  using assms(2,3)
proof (induction xs arbitrary: s)
  case Nil
  then show ?case by simp
next
  case (Cons x xs)
  from Cons.prems(2) have n: "\<not> is_confirm x" and r: "filter is_confirm xs = []"
    by (simp_all split: if_splits)
  from confirmSlot_step_manual [OF assms(1) n, of s] Cons.prems(1)
  have "\<not> confirmSlot (step opts s x)" by simp
  from Cons.IH [OF this r] show ?case by simp
qed

text \<open>
  While a stage awaits a delivery, no error has been tracked, the completion is open
  and the finalizing step is subscribed.
\<close>

lemma awaiting_is_live:
  assumes l: "linear_inv opts s" and r: "reporting_inv s"
    and a: "buildInFlight s \<or> 0 < signInFlight s \<or> 0 < finalizeInFlight s \<or>
        0 < submitInFlight s \<or> 0 < statusInFlight s \<or> (confirmHandle s \<and> \<not> confirmSlot s)"
  shows "finalizeLive s" and "completion s = Open" and "reported_errors (events s) = []"
proof -
  from l a have p: "position_after (events s) \<noteq> Terminated"
    "position_after (events s) \<noteq> After COMPLETED" "position_after (events s) \<noteq> OutOfOrder"
    by (cases "position_after (events s)" rule: position_cases;
        auto simp: linear_inv_def idle_from_signing_def)+
  with r show "finalizeLive s" and "completion s = Open"
    by (simp_all add: reporting_inv_def)
  from p reported_errors_position [of "events s"] show "reported_errors (events s) = []"
    by blast
qed

lemmas reported_twice_defs =
  reported_twice_def ends_with_error_def reported_errors_append pipeline_defs Let_def

lemma failure_reported_step:
  assumes l: "linear_inv opts s" and r: "reporting_inv s" and p: "pending_status_inv s"
    and b: "is_confirm x \<Longrightarrow> \<not> (confirmHandle s \<and> confirmSlot s)"
    and f: "failure_of opts s x = Some e"
  shows "reported_twice e s (step opts s x)"
proof (cases x)
  case IntentEmits
  with f show ?thesis by simp
next
  case PollTick
  with f show ?thesis by simp
next
  case (BuildReturns a)
  show ?thesis
  proof (cases a)
    case (Inl m)
    with f BuildReturns have g: "buildInFlight s" and e: "e = BuildTxFromIntentErr m"
      by (simp_all split: if_splits)
    from g have "buildInFlight s \<or> 0 < signInFlight s \<or> 0 < finalizeInFlight s \<or>
        0 < submitInFlight s \<or> 0 < statusInFlight s \<or> (confirmHandle s \<and> \<not> confirmSlot s)"
      by simp
    note v = awaiting_is_live [OF l r this]
    from v g e BuildReturns Inl show ?thesis
      by (simp add: reported_twice_defs)
  next
    case (Inr builtTx)
    with f BuildReturns have g: "buildInFlight s" and k: "userConfirmation opts = Skip"
      and e: "signUnsignedTx (intent opts) builtTx = Inl e"
      by (auto simp: rejection_def split: if_splits sum.splits)
    from g have "buildInFlight s \<or> 0 < signInFlight s \<or> 0 < finalizeInFlight s \<or>
        0 < submitInFlight s \<or> 0 < statusInFlight s \<or> (confirmHandle s \<and> \<not> confirmSlot s)"
      by simp
    note v = awaiting_is_live [OF l r this]
    from v g k e BuildReturns Inr show ?thesis
      by (simp add: reported_twice_defs)
  qed
next
  case UserConfirms
  with f obtain builtTx where g: "confirmHandle s" "sourceLive s" "builtSlot s = Some builtTx"
    and e: "signUnsignedTx (intent opts) builtTx = Inl e"
    by (auto simp: rejection_def split: if_splits option.splits sum.splits)
  from b g(1) UserConfirms have n: "\<not> confirmSlot s"
    by (simp add: is_confirm_def)
  with g(1) have "buildInFlight s \<or> 0 < signInFlight s \<or> 0 < finalizeInFlight s \<or>
      0 < submitInFlight s \<or> 0 < statusInFlight s \<or> (confirmHandle s \<and> \<not> confirmSlot s)"
    by simp
  note v = awaiting_is_live [OF l r this]
  from v g e UserConfirms show ?thesis
    by (simp add: reported_twice_defs)
next
  case (SignReturns a)
  with f obtain m where a: "a = Inl m" and g: "0 < signInFlight s" and e: "e = SigningErr m"
    by (cases a) (simp_all split: if_splits)
  from g have "buildInFlight s \<or> 0 < signInFlight s \<or> 0 < finalizeInFlight s \<or>
      0 < submitInFlight s \<or> 0 < statusInFlight s \<or> (confirmHandle s \<and> \<not> confirmSlot s)"
    by simp
  note v = awaiting_is_live [OF l r this]
  from v g e a SignReturns show ?thesis
    by (simp add: reported_twice_defs)
next
  case (FinalizeReturns a)
  with f obtain m where a: "a = Inl m" and g: "0 < finalizeInFlight s"
    and e: "e = FinalizeTxErr m"
    by (cases a) (simp_all split: if_splits)
  from g have "buildInFlight s \<or> 0 < signInFlight s \<or> 0 < finalizeInFlight s \<or>
      0 < submitInFlight s \<or> 0 < statusInFlight s \<or> (confirmHandle s \<and> \<not> confirmSlot s)"
    by simp
  note v = awaiting_is_live [OF l r this]
  from v g e a FinalizeReturns show ?thesis
    by (simp add: reported_twice_defs)
next
  case (SubmitReturns a)
  with f obtain m where a: "a = Inl m" and g: "0 < submitInFlight s"
    and e: "e = SubmitSignedTxErr m"
    by (cases a) (simp_all split: if_splits)
  from g have "buildInFlight s \<or> 0 < signInFlight s \<or> 0 < finalizeInFlight s \<or>
      0 < submitInFlight s \<or> 0 < statusInFlight s \<or> (confirmHandle s \<and> \<not> confirmSlot s)"
    by simp
  note v = awaiting_is_live [OF l r this]
  from v g e a SubmitReturns show ?thesis
    by (simp add: reported_twice_defs)
next
  case (StatusReturns a)
  with f obtain st where a: "a = Inr st" and g: "0 < statusInFlight s"
    and t: "status st = STATUS_FAILED"
    and e: "e = StatusFailedErr (StatusOfTransaction.txID st)"
    by (cases a) (simp_all split: if_splits)
  from g have "buildInFlight s \<or> 0 < signInFlight s \<or> 0 < finalizeInFlight s \<or>
      0 < submitInFlight s \<or> 0 < statusInFlight s \<or> (confirmHandle s \<and> \<not> confirmSlot s)"
    by simp
  note v = awaiting_is_live [OF l r this]
  from p g have "case lastStatus s of None \<Rightarrow> True | Some prev \<Rightarrow> status prev = STATUS_PENDING"
    by (simp add: pending_status_inv_def)
  with v g t e a StatusReturns show ?thesis
    by (simp add: reported_twice_defs split: option.splits)
qed

text \<open>
  C2, as stated, at a concrete run: the confirmation is manual, the node fails to
  finalize the signed transaction, and the user invokes \<open>confirm()\<close> once more. The error
  event of the failed finalizing is followed by another \<open>CONFIRMED\<close> event, and the
  account is asked to sign again. This request for a signature then fails: no event is
  tracked for it, and the completion keeps the error of the finalizing.
\<close>

theorem late_failure_unreported_counterexample:
  "phases (events (run options_xrd_manual
      [IntentEmits, BuildReturns (Inr built_sample), UserConfirms, SignReturns (Inr ''sig''),
       FinalizeReturns (Inl ''rejected''), UserConfirms])) =
     [INITIATED, BUILT_FROM_INTENT, ASKED_FOR_CONFIRMATION, CONFIRMED, SIGNED, FINALIZED,
      CONFIRMED]
   \<and> reported_errors (events (run options_xrd_manual
      [IntentEmits, BuildReturns (Inr built_sample), UserConfirms, SignReturns (Inr ''sig''),
       FinalizeReturns (Inl ''rejected''), UserConfirms])) = [FinalizeTxErr ''rejected'']
   \<and> failure_of options_xrd_manual
       (run options_xrd_manual
          [IntentEmits, BuildReturns (Inr built_sample), UserConfirms,
           SignReturns (Inr ''sig''), FinalizeReturns (Inl ''rejected''), UserConfirms])
       (SignReturns (Inl ''device refused'')) = Some (SigningErr ''device refused'')
   \<and> events (run options_xrd_manual
      [IntentEmits, BuildReturns (Inr built_sample), UserConfirms, SignReturns (Inr ''sig''),
       FinalizeReturns (Inl ''rejected''), UserConfirms,
       SignReturns (Inl ''device refused'')]) =
     events (run options_xrd_manual
      [IntentEmits, BuildReturns (Inr built_sample), UserConfirms, SignReturns (Inr ''sig''),
       FinalizeReturns (Inl ''rejected''), UserConfirms])
   \<and> completion (run options_xrd_manual
      [IntentEmits, BuildReturns (Inr built_sample), UserConfirms, SignReturns (Inr ''sig''),
       FinalizeReturns (Inl ''rejected''), UserConfirms,
       SignReturns (Inl ''device refused'')]) = Errored (FinalizeTxErr ''rejected'')"
  by (simp add: run_defs sample_defs phases_def)

text \<open>
  C2, amended: when the node fails to build the transaction with the message \<open>m\<close>, the
  events of the run are \<open>INITIATED\<close> and one error event with the error
  \<open>BuildTxFromIntent m\<close> in the step \<open>BUILT_FROM_INTENT\<close>, whatever is delivered afterwards,
  and the completion has failed with that error. In a run in which the confirmation is
  skipped or \<open>confirm()\<close> is invoked at most once, every failure of a stage (a request to
  build, to sign, to finalize or to submit that fails, an intent that the signing step
  rejects, a status \<open>FAILED\<close>) is reported twice, by one error event that carries the
  error and by the failure of the completion with that error; and once an error event
  has been tracked in such a run, it stays the only error event and the last event, and
  the completion has failed with its error.
\<close>

theorem build_failure_reported:
  "(buildInFlight (run opts pre) \<longrightarrow>
      events (run opts (pre @ BuildReturns (Inl m) # post)) =
        [initiated_event opts, StateError (BuildTxFromIntentErr m) BUILT_FROM_INTENT]
      \<and> completion (run opts (pre @ BuildReturns (Inl m) # post)) =
        Errored (BuildTxFromIntentErr m))
   \<and> ((userConfirmation opts = Skip \<or> length (filter is_confirm (stimuli @ [x])) \<le> 1)
        \<and> failure_of opts (run opts stimuli) x = Some e \<longrightarrow>
      reported_twice e (run opts stimuli) (run opts (stimuli @ [x])))
   \<and> ((userConfirmation opts = Skip \<or> length (filter is_confirm later) \<le> 1)
        \<and> reported_errors (events (run opts later)) = e' # rest \<longrightarrow>
      rest = [] \<and> ends_with_error e' (events (run opts later))
      \<and> completion (run opts later) = Errored e')"
proof (intro conjI impI)
  assume f: "buildInFlight (run opts pre)"
  let ?s = "on_build opts (Inl m) (run opts pre)"
  have r: "run opts (pre @ BuildReturns (Inl m) # post) = run_from opts ?s post"
    by (simp add: run_append)
  note e = build_failure_effect [OF base_inv_run f, of m]
  from spent_run_from [OF e(1), of opts post] e(2) r
  show "events (run opts (pre @ BuildReturns (Inl m) # post)) =
      [initiated_event opts, StateError (BuildTxFromIntentErr m) BUILT_FROM_INTENT]"
    by simp
  from spent_run_from [OF e(1), of opts post] e(3) r
  show "completion (run opts (pre @ BuildReturns (Inl m) # post)) =
      Errored (BuildTxFromIntentErr m)"
    by simp
next
  assume a: "(userConfirmation opts = Skip \<or> length (filter is_confirm (stimuli @ [x])) \<le> 1)
      \<and> failure_of opts (run opts stimuli) x = Some e"
  let ?s = "run opts stimuli"
  from a have h: "userConfirmation opts = Skip \<or>
      length (filter is_confirm stimuli) \<le> (if confirmSlot initial_state then 0 else 1)"
    by (auto simp: initial_state_def split: if_splits)
  from linear_inv_initial h have l: "linear_inv opts ?s"
    unfolding run_def by (rule linear_inv_run_from)
  from linear_inv_initial reporting_inv_initial h have r: "reporting_inv ?s"
    unfolding run_def by (rule reporting_inv_run_from)
  have b: "is_confirm x \<Longrightarrow> \<not> (confirmHandle ?s \<and> confirmSlot ?s)"
  proof -
    assume c: "is_confirm x"
    show "\<not> (confirmHandle ?s \<and> confirmSlot ?s)"
    proof (cases "userConfirmation opts = Skip")
      case True
      with l show ?thesis by (auto simp: linear_inv_def)
    next
      case False
      with a c have n: "filter is_confirm stimuli = []"
        by simp
      from False have "userConfirmation opts = Manual"
        by (simp add: not_Skip_iff)
      from unconfirmed_run_from [OF this _ n, of initial_state]
      show ?thesis by (simp add: run_def initial_state_def)
    qed
  qed
  from a have "failure_of opts ?s x = Some e"
    by simp
  from failure_reported_step [OF l r pending_status_inv_run b this]
  show "reported_twice e ?s (run opts (stimuli @ [x]))"
    by (simp add: run_append)
next
  assume a: "(userConfirmation opts = Skip \<or> length (filter is_confirm later) \<le> 1)
      \<and> reported_errors (events (run opts later)) = e' # rest"
  let ?s = "run opts later"
  from a have "userConfirmation opts = Skip \<or>
      length (filter is_confirm later) \<le> (if confirmSlot initial_state then 0 else 1)"
    by (simp add: initial_state_def)
  with linear_inv_initial have "linear_inv opts ?s"
    unfolding run_def by (rule linear_inv_run_from)
  then have "position_after (events ?s) \<noteq> OutOfOrder"
    by (auto simp: linear_inv_def)
  with a reported_errors_position [of "events ?s"] have "position_after (events ?s) = Terminated"
    by auto
  from terminated_events [OF this] a
  have t: "rest = [] \<and> ends_with_error e' (events ?s)"
    by auto
  from completion_inv_run [of opts later] a have c: "completion ?s = Errored e'"
    by (auto simp: completion_inv_def split: completion_state.splits)
  from t show "rest = []" by simp
  from t show "ends_with_error e' (events ?s)" by simp
  from c show "completion ?s = Errored e'" .
qed

theorem build_failure_reported_witness:
  "buildInFlight (run options_xrd_skip [IntentEmits])
   \<and> events (run options_xrd_skip
        ([IntentEmits] @ BuildReturns (Inl ''intent invalid'') # [PollTick, UserConfirms])) =
       [initiated_event options_xrd_skip,
        StateError (BuildTxFromIntentErr ''intent invalid'') BUILT_FROM_INTENT]
   \<and> completion (run options_xrd_skip
        ([IntentEmits] @ BuildReturns (Inl ''intent invalid'') # [PollTick, UserConfirms])) =
       Errored (BuildTxFromIntentErr ''intent invalid'')
   \<and> userConfirmation options_xrd_skip = Skip
   \<and> failure_of options_xrd_skip
        (run options_xrd_skip
           [IntentEmits, BuildReturns (Inr built_sample), SignReturns (Inr ''sig'')])
        (FinalizeReturns (Inl ''rejected'')) = Some (FinalizeTxErr ''rejected'')
   \<and> reported_twice (FinalizeTxErr ''rejected'')
        (run options_xrd_skip
           [IntentEmits, BuildReturns (Inr built_sample), SignReturns (Inr ''sig'')])
        (run options_xrd_skip
           ([IntentEmits, BuildReturns (Inr built_sample), SignReturns (Inr ''sig'')]
            @ [FinalizeReturns (Inl ''rejected'')]))
   \<and> reported_errors (events (run options_xrd_skip
        [IntentEmits, BuildReturns (Inr built_sample), SignReturns (Inr ''sig''),
         FinalizeReturns (Inl ''rejected''), PollTick])) = [FinalizeTxErr ''rejected'']
   \<and> ends_with_error (FinalizeTxErr ''rejected'') (events (run options_xrd_skip
        [IntentEmits, BuildReturns (Inr built_sample), SignReturns (Inr ''sig''),
         FinalizeReturns (Inl ''rejected''), PollTick]))
   \<and> completion (run options_xrd_skip
        [IntentEmits, BuildReturns (Inr built_sample), SignReturns (Inr ''sig''),
         FinalizeReturns (Inl ''rejected''), PollTick]) = Errored (FinalizeTxErr ''rejected'')"
proof -
  let ?signed = "[IntentEmits, BuildReturns (Inr built_sample), SignReturns (Inr ''sig'')]"
  let ?failed = "[IntentEmits, BuildReturns (Inr built_sample), SignReturns (Inr ''sig''),
      FinalizeReturns (Inl ''rejected''), PollTick]"
  have h: "buildInFlight (run options_xrd_skip [IntentEmits])"
    by (simp add: run_defs)
  have k: "userConfirmation options_xrd_skip = Skip"
    by (simp add: options_xrd_skip_def)
  have f: "failure_of options_xrd_skip (run options_xrd_skip ?signed)
      (FinalizeReturns (Inl ''rejected'')) = Some (FinalizeTxErr ''rejected'')"
    by (simp add: run_defs sample_defs)
  have e: "reported_errors (events (run options_xrd_skip ?failed)) =
      FinalizeTxErr ''rejected'' # []"
    by (simp add: run_defs sample_defs)
  from build_failure_reported [where opts = options_xrd_skip and pre = "[IntentEmits]"
      and m = "''intent invalid''" and post = "[PollTick, UserConfirms]"
      and stimuli = ?signed and x = "FinalizeReturns (Inl ''rejected'')"
      and e = "FinalizeTxErr ''rejected''" and later = ?failed
      and e' = "FinalizeTxErr ''rejected''" and rest = "[]"] h k f e
  show ?thesis by simp
qed

subsection \<open>Several non-native resources\<close>

text \<open>
  C3, as stated, at a concrete run: for the intent with transfers of \<open>foo\<close> and \<open>bar\<close> the
  node has been asked to build the transaction, and no error has been raised yet, after
  the intent was emitted; the rejection follows the answer of the node.
\<close>

theorem build_precedes_rejection_counterexample:
  "calls (run options_foo_bar [IntentEmits]) = [BuildTransactionCall (intent options_foo_bar)]
   \<and> reported_errors (events (run options_foo_bar [IntentEmits])) = []
   \<and> reported_errors (events (run options_foo_bar
        [IntentEmits, BuildReturns (Inr built_sample)])) = [MultipleNonNativeRRIs]"
  by (simp add: run_defs sample_defs)

text \<open>
  C3, amended: for an intent whose transfers name two or more distinct non-native
  resources, signing fails with the error \<open>MultipleNonNativeRRIs\<close> before the account is
  asked to sign: in every run the only request made to a collaborator is the one that
  builds the transaction, and once the built transaction is confirmed the error is
  tracked and the completion fails with it.
\<close>

theorem several_non_native_rris_rejected:
  assumes "2 \<le> card (set (nonXRDHRPsOfRRIsInTx (intent opts)))"
  shows "signUnsignedTx (intent opts) unsignedTx = Inl MultipleNonNativeRRIs
   \<and> list_all (\<lambda>c. c = BuildTransactionCall (intent opts)) (calls (run opts stimuli))
   \<and> (userConfirmation opts = Skip \<and> buildInFlight (run opts pre) \<longrightarrow>
        reported_errors (events (run opts (pre @ [BuildReturns (Inr unsignedTx)]))) =
          [MultipleNonNativeRRIs]
        \<and> completion (run opts (pre @ [BuildReturns (Inr unsignedTx)])) =
          Errored MultipleNonNativeRRIs)"
proof (intro conjI impI)
  from assms show u: "signUnsignedTx (intent opts) unsignedTx = Inl MultipleNonNativeRRIs"
    by (rule signUnsignedTx_several)
  have "unsignable_inv opts (run opts stimuli)"
    using assms by (intro unsignable_inv_run signUnsignedTx_several)
  then show "list_all (\<lambda>c. c = BuildTransactionCall (intent opts)) (calls (run opts stimuli))"
    by (simp add: unsignable_inv_def)
  assume a: "userConfirmation opts = Skip \<and> buildInFlight (run opts pre)"
  have r: "run opts (pre @ [BuildReturns (Inr unsignedTx)]) =
      on_build opts (Inr unsignedTx) (run opts pre)"
    by (simp add: run_append)
  from a have k: "userConfirmation opts = Skip" and f: "buildInFlight (run opts pre)"
    by simp_all
  note e = skipped_confirmation_of_unsignable [OF u k base_inv_run f]
  from e(1) r
  show "reported_errors (events (run opts (pre @ [BuildReturns (Inr unsignedTx)]))) =
      [MultipleNonNativeRRIs]"
    by simp
  from e(2) r
  show "completion (run opts (pre @ [BuildReturns (Inr unsignedTx)])) =
      Errored MultipleNonNativeRRIs"
    by simp
qed

theorem several_non_native_rris_rejected_witness:
  "2 \<le> card (set (nonXRDHRPsOfRRIsInTx (intent options_foo_bar)))
   \<and> userConfirmation options_foo_bar = Skip
   \<and> buildInFlight (run options_foo_bar [PollTick, IntentEmits])
   \<and> signUnsignedTx (intent options_foo_bar) built_sample = Inl MultipleNonNativeRRIs
   \<and> list_all (\<lambda>c. c = BuildTransactionCall (intent options_foo_bar))
        (calls (run options_foo_bar
           [PollTick, IntentEmits, BuildReturns (Inr built_sample), SignReturns (Inr ''sig'')]))
   \<and> reported_errors (events (run options_foo_bar
        ([PollTick, IntentEmits] @ [BuildReturns (Inr built_sample)]))) = [MultipleNonNativeRRIs]
   \<and> completion (run options_foo_bar
        ([PollTick, IntentEmits] @ [BuildReturns (Inr built_sample)])) =
       Errored MultipleNonNativeRRIs"
proof -
  have h: "2 \<le> card (set (nonXRDHRPsOfRRIsInTx (intent options_foo_bar)))"
    by (simp add: nonXRDHRPsOfRRIsInTx_def sample_defs xrd_def ascii_def)
  have k: "userConfirmation options_foo_bar = Skip"
    by (simp add: options_foo_bar_def)
  have f: "buildInFlight (run options_foo_bar [PollTick, IntentEmits])"
    by (simp add: run_defs)
  from several_non_native_rris_rejected [OF h, of built_sample
      "[PollTick, IntentEmits, BuildReturns (Inr built_sample), SignReturns (Inr ''sig'')]"
      "[PollTick, IntentEmits]"] h k f
  show ?thesis by blast
qed

subsection \<open>The step in which a signing error is tracked\<close>

text \<open>
  C4, at concrete runs: the rejection of an intent with transfers of \<open>foo\<close> and \<open>bar\<close>,
  and a failure of the account to sign, are both raised by the signing step, after
  \<open>CONFIRMED\<close> and before \<open>SIGNED\<close>; the error event carries the step \<open>FINALIZED\<close>. The
  error passes the signing step uncaught and is caught by the \<open>catchError\<close> of the
  finalizing step. A failure of the node to finalize is tracked in the step \<open>FINALIZED\<close>
  as well.
\<close>

theorem signing_error_tracked_as_finalized:
  "events (run options_foo_bar [IntentEmits, BuildReturns (Inr built_sample)]) =
     [StateUpdate (IntentState (intent options_foo_bar)) INITIATED,
      StateUpdate (BuiltState built_sample) BUILT_FROM_INTENT,
      StateUpdate (BuiltState built_sample) ASKED_FOR_CONFIRMATION,
      StateUpdate (BuiltState built_sample) CONFIRMED,
      StateError MultipleNonNativeRRIs FINALIZED]
   \<and> events (run options_xrd_skip
        [IntentEmits, BuildReturns (Inr built_sample), SignReturns (Inl ''device refused'')]) =
     [StateUpdate (IntentState (intent options_xrd_skip)) INITIATED,
      StateUpdate (BuiltState built_sample) BUILT_FROM_INTENT,
      StateUpdate (BuiltState built_sample) ASKED_FOR_CONFIRMATION,
      StateUpdate (BuiltState built_sample) CONFIRMED,
      StateError (SigningErr ''device refused'') FINALIZED]
   \<and> events (run options_xrd_skip
        [IntentEmits, BuildReturns (Inr built_sample), SignReturns (Inr ''sig''),
         FinalizeReturns (Inl ''rejected'')]) =
     [StateUpdate (IntentState (intent options_xrd_skip)) INITIATED,
      StateUpdate (BuiltState built_sample) BUILT_FROM_INTENT,
      StateUpdate (BuiltState built_sample) ASKED_FOR_CONFIRMATION,
      StateUpdate (BuiltState built_sample) CONFIRMED,
      StateUpdate (SignedState signed_sample) SIGNED,
      StateError (FinalizeTxErr ''rejected'') FINALIZED]"
  by (simp add: run_defs sample_defs)

subsection \<open>Status updates without consecutive duplicates\<close>

text \<open>
  C5: once the transaction is pending and before any status has been returned, let the
  polling run: ticks and the answers of the status requests, in any interleaving, up to
  the first status that is not \<open>PENDING\<close>. The statuses tracked as
  \<open>UPDATE_OF_STATUS_OF_PENDING_TX\<close> in the whole run are then the statuses that the
  requests returned, with consecutive elements of equal \<open>status\<close> removed.
\<close>

theorem status_updates_deduplicated:
  assumes "statusLive (run opts pre)" and "pendingSlot (run opts pre) = Some pendingTx"
    and "lastStatus (run opts pre) = None"
    and "polled (statusInFlight (run opts pre)) polling"
  shows "update_statuses (events (run opts (pre @ polling))) =
      without_consecutive_duplicates (answers polling)"
proof -
  from assms(3) have "case lastStatus (run opts pre) of None \<Rightarrow> True
      | Some prev \<Rightarrow> status prev = STATUS_PENDING"
    by simp
  from polled_run_from [OF assms(1) assms(2) this assms(4), of opts]
    no_update_before_status [OF assms(3)] assms(3)
  show ?thesis
    by (simp add: run_append without_duplicates_after_None)
qed

theorem status_updates_deduplicated_witness:
  "statusLive (run options_xrd_skip until_submitted)
   \<and> pendingSlot (run options_xrd_skip until_submitted) = Some pending_sample
   \<and> lastStatus (run options_xrd_skip until_submitted) = None
   \<and> polled (statusInFlight (run options_xrd_skip until_submitted))
        [PollTick, StatusReturns (Inr (status_sample STATUS_PENDING)),
         PollTick, PollTick, StatusReturns (Inr (status_sample STATUS_PENDING)),
         StatusReturns (Inr (status_sample STATUS_CONFIRMED))]
   \<and> answers
        [PollTick, StatusReturns (Inr (status_sample STATUS_PENDING)),
         PollTick, PollTick, StatusReturns (Inr (status_sample STATUS_PENDING)),
         StatusReturns (Inr (status_sample STATUS_CONFIRMED))] =
       [status_sample STATUS_PENDING, status_sample STATUS_PENDING,
        status_sample STATUS_CONFIRMED]
   \<and> update_statuses (events (run options_xrd_skip (until_submitted @
        [PollTick, StatusReturns (Inr (status_sample STATUS_PENDING)),
         PollTick, PollTick, StatusReturns (Inr (status_sample STATUS_PENDING)),
         StatusReturns (Inr (status_sample STATUS_CONFIRMED))]))) =
       [status_sample STATUS_PENDING, status_sample STATUS_CONFIRMED]"
proof -
  let ?polling = "[PollTick, StatusReturns (Inr (status_sample STATUS_PENDING)),
      PollTick, PollTick, StatusReturns (Inr (status_sample STATUS_PENDING)),
      StatusReturns (Inr (status_sample STATUS_CONFIRMED))]"
  have h: "statusLive (run options_xrd_skip until_submitted)"
    "pendingSlot (run options_xrd_skip until_submitted) = Some pending_sample"
    "lastStatus (run options_xrd_skip until_submitted) = None"
    by (simp_all add: run_defs sample_defs)
  have n: "statusInFlight (run options_xrd_skip until_submitted) = 0"
    by (simp add: run_defs sample_defs)
  have p: "polled (statusInFlight (run options_xrd_skip until_submitted)) ?polling"
    by (simp add: n status_sample_def)
  have a: "answers ?polling =
      [status_sample STATUS_PENDING, status_sample STATUS_PENDING,
       status_sample STATUS_CONFIRMED]"
    by simp
  have d: "without_consecutive_duplicates
      [status_sample STATUS_PENDING, status_sample STATUS_PENDING,
       status_sample STATUS_CONFIRMED] =
      [status_sample STATUS_PENDING, status_sample STATUS_CONFIRMED]"
    by (simp add: status_sample_def)
  from status_updates_deduplicated [OF h p] h p a d show ?thesis
    by simp
qed

subsection \<open>Repeated confirmation\<close>

text \<open>
  C6, as stated, at a concrete run: a second \<open>confirm()\<close> after the transaction has been
  signed makes the pipeline track \<open>CONFIRMED\<close> again and ask the account to sign again.
\<close>

theorem confirm_not_idempotent_counterexample:
  "phases (events (run options_xrd_manual
      [IntentEmits, BuildReturns (Inr built_sample), UserConfirms, SignReturns (Inr ''sig'')])) =
     [INITIATED, BUILT_FROM_INTENT, ASKED_FOR_CONFIRMATION, CONFIRMED, SIGNED]
   \<and> phases (events (run options_xrd_manual
      [IntentEmits, BuildReturns (Inr built_sample), UserConfirms, SignReturns (Inr ''sig''),
       UserConfirms])) =
     [INITIATED, BUILT_FROM_INTENT, ASKED_FOR_CONFIRMATION, CONFIRMED, SIGNED, CONFIRMED]
   \<and> calls (run options_xrd_manual
      [IntentEmits, BuildReturns (Inr built_sample), UserConfirms, SignReturns (Inr ''sig''),
       UserConfirms]) =
     [BuildTransactionCall (intent options_xrd_manual), SignCall ''blob'' None,
      FinalizeTransactionCall signed_sample, SignCall ''blob'' None]"
  by (simp add: run_defs sample_defs phases_def)

lemma confirm_repeats_from:
  assumes "signUnsignedTx (intent opts) b = Inr (tx, hrp)"
  shows "confirmHandle s \<Longrightarrow> sourceLive s \<Longrightarrow> builtSlot s = Some b \<Longrightarrow>
     events (run_from opts s (replicate n UserConfirms)) =
       events s @ replicate n (StateUpdate (BuiltState b) CONFIRMED)
     \<and> calls (run_from opts s (replicate n UserConfirms)) =
       calls s @ replicate n (SignCall tx hrp)"
proof (induction n arbitrary: s)
  case 0
  then show ?case by simp
next
  case (Suc n)
  let ?s = "on_confirm opts s"
  from Suc.prems assms have
    e: "events ?s = events s @ [StateUpdate (BuiltState b) CONFIRMED]"
    and c: "calls ?s = calls s @ [SignCall tx hrp]"
    and k: "confirmHandle ?s" "sourceLive ?s" "builtSlot ?s = Some b"
    by (simp_all add: pipeline_defs Let_def)
  from Suc.IH [OF k] e c show ?case
    by (simp add: replicate_append_same)
qed

lemma confirm_ignored_from:
  "\<not> sourceLive s \<Longrightarrow>
   events (run_from opts s (replicate n UserConfirms)) = events s
   \<and> calls (run_from opts s (replicate n UserConfirms)) = calls s"
proof (induction n arbitrary: s)
  case 0
  then show ?case by simp
next
  case (Suc n)
  let ?s = "on_confirm opts s"
  from Suc.prems have "\<not> sourceLive ?s" "events ?s = events s" "calls ?s = calls s"
    by (simp_all add: on_confirm_def Let_def)
  with Suc.IH [of ?s] show ?case by simp
qed

lemma confirm_rejected:
  assumes "signUnsignedTx (intent opts) b = Inl e"
    and "confirmHandle s" and "sourceLive s" and "builtSlot s = Some b"
  shows "\<not> sourceLive (on_confirm opts s)"
    and "events (on_confirm opts s) =
      events s @ StateUpdate (BuiltState b) CONFIRMED
        # (if finalizeLive s then [StateError e FINALIZED] else [])"
    and "calls (on_confirm opts s) = calls s"
  using assms by (simp_all add: pipeline_defs Let_def)

text \<open>
  C6, amended: \<open>confirm()\<close> is not idempotent. Once the callback has been handed out and
  while the signing step has not failed, for an intent that can be signed each of \<open>n\<close>
  invocations makes the pipeline track one more \<open>CONFIRMED\<close> event and ask the account
  to sign once more. For an intent that the signing step rejects, the first invocation
  makes the pipeline track \<open>CONFIRMED\<close> and then, if the finalizing step is still
  subscribed, the error in the step \<open>FINALIZED\<close>; the account is not asked to sign, and
  the invocations that follow are ignored.
\<close>

theorem confirm_repeats:
  assumes "confirmHandle (run opts stimuli)" and "sourceLive (run opts stimuli)"
    and "builtSlot (run opts stimuli) = Some b"
  shows "(signUnsignedTx (intent opts) b = Inr (tx, hrp) \<longrightarrow>
       events (run opts (stimuli @ replicate n UserConfirms)) =
         events (run opts stimuli) @ replicate n (StateUpdate (BuiltState b) CONFIRMED)
       \<and> calls (run opts (stimuli @ replicate n UserConfirms)) =
         calls (run opts stimuli) @ replicate n (SignCall tx hrp))
     \<and> (signUnsignedTx (intent opts) b = Inl e \<longrightarrow>
       events (run opts (stimuli @ replicate (Suc n) UserConfirms)) =
         events (run opts stimuli) @ StateUpdate (BuiltState b) CONFIRMED
           # (if finalizeLive (run opts stimuli) then [StateError e FINALIZED] else [])
       \<and> calls (run opts (stimuli @ replicate (Suc n) UserConfirms)) =
         calls (run opts stimuli))"
proof (intro conjI impI)
  assume u: "signUnsignedTx (intent opts) b = Inr (tx, hrp)"
  note r = confirm_repeats_from [OF u assms(1) assms(2) assms(3), of n]
  from r show "events (run opts (stimuli @ replicate n UserConfirms)) =
      events (run opts stimuli) @ replicate n (StateUpdate (BuiltState b) CONFIRMED)"
    by (simp add: run_append)
  from r show "calls (run opts (stimuli @ replicate n UserConfirms)) =
      calls (run opts stimuli) @ replicate n (SignCall tx hrp)"
    by (simp add: run_append)
next
  assume u: "signUnsignedTx (intent opts) b = Inl e"
  note c = confirm_rejected [OF u assms(1) assms(2) assms(3)]
  note i = confirm_ignored_from [OF c(1), of opts n]
  from i c(2)
  show "events (run opts (stimuli @ replicate (Suc n) UserConfirms)) =
      events (run opts stimuli) @ StateUpdate (BuiltState b) CONFIRMED
        # (if finalizeLive (run opts stimuli) then [StateError e FINALIZED] else [])"
    by (simp add: run_append)
  from i c(3)
  show "calls (run opts (stimuli @ replicate (Suc n) UserConfirms)) = calls (run opts stimuli)"
    by (simp add: run_append)
qed

theorem confirm_repeats_witness:
  "confirmHandle (run options_xrd_manual [IntentEmits, BuildReturns (Inr built_sample)])
   \<and> sourceLive (run options_xrd_manual [IntentEmits, BuildReturns (Inr built_sample)])
   \<and> builtSlot (run options_xrd_manual [IntentEmits, BuildReturns (Inr built_sample)]) =
       Some built_sample
   \<and> signUnsignedTx (intent options_xrd_manual) built_sample = Inr (''blob'', None)
   \<and> events (run options_xrd_manual
        ([IntentEmits, BuildReturns (Inr built_sample)] @ replicate 3 UserConfirms)) =
       events (run options_xrd_manual [IntentEmits, BuildReturns (Inr built_sample)])
       @ replicate 3 (StateUpdate (BuiltState built_sample) CONFIRMED)
   \<and> calls (run options_xrd_manual
        ([IntentEmits, BuildReturns (Inr built_sample)] @ replicate 3 UserConfirms)) =
       calls (run options_xrd_manual [IntentEmits, BuildReturns (Inr built_sample)])
       @ replicate 3 (SignCall ''blob'' None)
   \<and> confirmHandle (run options_foo_bar_manual [IntentEmits, BuildReturns (Inr built_sample)])
   \<and> sourceLive (run options_foo_bar_manual [IntentEmits, BuildReturns (Inr built_sample)])
   \<and> builtSlot (run options_foo_bar_manual [IntentEmits, BuildReturns (Inr built_sample)]) =
       Some built_sample
   \<and> finalizeLive (run options_foo_bar_manual [IntentEmits, BuildReturns (Inr built_sample)])
   \<and> signUnsignedTx (intent options_foo_bar_manual) built_sample = Inl MultipleNonNativeRRIs
   \<and> events (run options_foo_bar_manual
        ([IntentEmits, BuildReturns (Inr built_sample)] @ replicate (Suc 2) UserConfirms)) =
       events (run options_foo_bar_manual [IntentEmits, BuildReturns (Inr built_sample)])
       @ [StateUpdate (BuiltState built_sample) CONFIRMED,
          StateError MultipleNonNativeRRIs FINALIZED]
   \<and> calls (run options_foo_bar_manual
        ([IntentEmits, BuildReturns (Inr built_sample)] @ replicate (Suc 2) UserConfirms)) =
       calls (run options_foo_bar_manual [IntentEmits, BuildReturns (Inr built_sample)])"
proof -
  let ?xs = "[IntentEmits, BuildReturns (Inr built_sample)]"
  have h: "confirmHandle (run options_xrd_manual ?xs)"
    "sourceLive (run options_xrd_manual ?xs)"
    "builtSlot (run options_xrd_manual ?xs) = Some built_sample"
    by (simp_all add: run_defs sample_defs)
  have u: "signUnsignedTx (intent options_xrd_manual) built_sample = Inr (''blob'', None)"
    by (simp add: signUnsignedTx_def nonXRDHRPsOfRRIsInTx_def sample_defs xrd_def)
  have h': "confirmHandle (run options_foo_bar_manual ?xs)"
    "sourceLive (run options_foo_bar_manual ?xs)"
    "builtSlot (run options_foo_bar_manual ?xs) = Some built_sample"
    by (simp_all add: run_defs sample_defs)
  have l: "finalizeLive (run options_foo_bar_manual ?xs)"
    by (simp add: run_defs sample_defs)
  have u': "signUnsignedTx (intent options_foo_bar_manual) built_sample =
      Inl MultipleNonNativeRRIs"
    by (simp add: signUnsignedTx_def nonXRDHRPsOfRRIsInTx_def sample_defs xrd_def ascii_def)
  from confirm_repeats [OF h, where tx = "''blob''" and hrp = None and n = 3] u
  have a: "events (run options_xrd_manual (?xs @ replicate 3 UserConfirms)) =
       events (run options_xrd_manual ?xs)
       @ replicate 3 (StateUpdate (BuiltState built_sample) CONFIRMED)
     \<and> calls (run options_xrd_manual (?xs @ replicate 3 UserConfirms)) =
       calls (run options_xrd_manual ?xs) @ replicate 3 (SignCall ''blob'' None)"
    by blast
  from confirm_repeats [OF h', where e = MultipleNonNativeRRIs and n = 2] u' l
  have b: "events (run options_foo_bar_manual (?xs @ replicate (Suc 2) UserConfirms)) =
       events (run options_foo_bar_manual ?xs)
       @ [StateUpdate (BuiltState built_sample) CONFIRMED,
          StateError MultipleNonNativeRRIs FINALIZED]
     \<and> calls (run options_foo_bar_manual (?xs @ replicate (Suc 2) UserConfirms)) =
       calls (run options_foo_bar_manual ?xs)"
    by simp
  from h u a h' l u' b show ?thesis by blast
qed

end
